theory Spec2Isabelle
  imports Complex_Main "HOL-Library.Word" "HOL-Library.Multiset" "HOL-Library.Monad_Syntax"
begin

section \<open>SwarmMind engine: geometry and spatial index\<close>

text \<open>
  The engine (src/engine.h, src/engine.cpp) is embedded function by function. The C++
  type \<open>float\<close> is read as \<^typ>\<open>real\<close>: arithmetic is exact, there is no rounding,
  no NaN and no infinity. The snapshot codec is the exception: there the binary32
  product and the binary32 bit pattern are parameters, and a conversion to an integer
  type whose result does not fit is a failure. Identifiers (\<open>uint32_t\<close>) are 32-bit words, container
  indices and sizes are natural numbers, \<open>int\<close> is \<^typ>\<open>int\<close>.
\<close>

subsection \<open>Constants (engine.h)\<close>

definition MAP_WIDTH :: real where "MAP_WIDTH = 4000"
definition MAP_HEIGHT :: real where "MAP_HEIGHT = 4000"
definition MAX_BOIDS_PER_PLAYER :: int where "MAX_BOIDS_PER_PLAYER = 200"
definition INITIAL_BOIDS :: nat where "INITIAL_BOIDS = 10"
definition BOID_BASE_SPEED :: real where "BOID_BASE_SPEED = 3"
definition BOID_BASE_AGGRESSION :: real where "BOID_BASE_AGGRESSION = 80"
definition BOID_BASE_COLLECT_RANGE :: real where "BOID_BASE_COLLECT_RANGE = 40"
definition SEPARATION_RADIUS :: real where "SEPARATION_RADIUS = 15"
definition ALIGNMENT_RADIUS :: real where "ALIGNMENT_RADIUS = 50"
definition COHESION_RADIUS :: real where "COHESION_RADIUS = 60"
definition SEPARATION_WEIGHT :: real where "SEPARATION_WEIGHT = 5 / 2"
definition ALIGNMENT_WEIGHT :: real where "ALIGNMENT_WEIGHT = 1"
definition COHESION_WEIGHT :: real where "COHESION_WEIGHT = 1"
definition CURSOR_WEIGHT :: real where "CURSOR_WEIGHT = 2"
definition MAX_RESOURCES :: nat where "MAX_RESOURCES = 300"
definition RESOURCE_SPAWN_RATE :: real where "RESOURCE_SPAWN_RATE = 1 / 2"
definition RESOURCE_VALUE_MIN :: int where "RESOURCE_VALUE_MIN = 1"
definition RESOURCE_VALUE_MAX :: int where "RESOURCE_VALUE_MAX = 3"
definition COMBAT_ABSORB_RADIUS :: real where "COMBAT_ABSORB_RADIUS = 20"
definition BOOST_SPEED_MULT :: real where "BOOST_SPEED_MULT = 185 / 100"
definition BOOST_DRAIN_RATE :: real where "BOOST_DRAIN_RATE = 4 / 100"
definition BOOST_RECHARGE_RATE :: real where "BOOST_RECHARGE_RATE = 12 / 1000"
definition BOOST_MIN_FUEL :: real where "BOOST_MIN_FUEL = 5 / 100"
definition MAX_PICKUPS :: nat where "MAX_PICKUPS = 20"
definition PICKUP_SPAWN_INTERVAL :: real where "PICKUP_SPAWN_INTERVAL = 60"
definition PICKUP_COLLECT_RADIUS :: real where "PICKUP_COLLECT_RADIUS = 30"
definition SHIELD_DURATION :: int where "SHIELD_DURATION = 60"
definition SPEED_BURST_DURATION :: int where "SPEED_BURST_DURATION = 80"
definition SLOW_DURATION :: int where "SLOW_DURATION = 60"
definition SPEED_BURST_MULT :: real where "SPEED_BURST_MULT = 3 / 2"
definition SLOW_MULT :: real where "SLOW_MULT = 1 / 2"
definition SCATTER_FORCE :: real where "SCATTER_FORCE = 8"
definition MINE_KILL_COUNT :: nat where "MINE_KILL_COUNT = 4"
definition QUADTREE_MAX_OBJECTS :: nat where "QUADTREE_MAX_OBJECTS = 8"
definition QUADTREE_MAX_LEVELS :: nat where "QUADTREE_MAX_LEVELS = 6"

subsection \<open>Vec2 and Rect\<close>

datatype Vec2 = Vec2 (vec_x: real) (vec_y: real)

definition vadd :: "Vec2 \<Rightarrow> Vec2 \<Rightarrow> Vec2" where
  "vadd a b = Vec2 (vec_x a + vec_x b) (vec_y a + vec_y b)"

definition vsub :: "Vec2 \<Rightarrow> Vec2 \<Rightarrow> Vec2" where
  "vsub a b = Vec2 (vec_x a - vec_x b) (vec_y a - vec_y b)"

definition vscale :: "Vec2 \<Rightarrow> real \<Rightarrow> Vec2" where
  "vscale a s = Vec2 (vec_x a * s) (vec_y a * s)"

definition lengthSq :: "Vec2 \<Rightarrow> real" where
  "lengthSq a = vec_x a * vec_x a + vec_y a * vec_y a"

definition vlength :: "Vec2 \<Rightarrow> real" where
  "vlength a = sqrt (lengthSq a)"

definition normalized :: "Vec2 \<Rightarrow> Vec2" where
  "normalized a =
     (let l = vlength a
      in if l < 1 / 10000 then Vec2 0 0 else Vec2 (vec_x a / l) (vec_y a / l))"

definition clampLength :: "real \<Rightarrow> Vec2 \<Rightarrow> Vec2" where
  "clampLength maxLen a =
     (let lsq = lengthSq a
      in if lsq > maxLen * maxLen
         then (let l = sqrt lsq in Vec2 ((vec_x a / l) * maxLen) ((vec_y a / l) * maxLen))
         else a)"

datatype Rect = Rect (rect_x: real) (rect_y: real) (rect_w: real) (rect_h: real)

text \<open>\<open>Rect::contains\<close>: half-open on both axes.\<close>

definition contains :: "Rect \<Rightarrow> real \<Rightarrow> real \<Rightarrow> bool" where
  "contains r px py \<longleftrightarrow>
     px \<ge> rect_x r \<and> px < rect_x r + rect_w r \<and> py \<ge> rect_y r \<and> py < rect_y r + rect_h r"

definition intersects :: "Rect \<Rightarrow> Rect \<Rightarrow> bool" where
  "intersects r o' \<longleftrightarrow>
     \<not> (rect_x o' > rect_x r + rect_w r \<or> rect_x o' + rect_w o' < rect_x r \<or>
        rect_y o' > rect_y r + rect_h r \<or> rect_y o' + rect_h o' < rect_y r)"

subsection \<open>QuadTree\<close>

datatype QTEntry = QTEntry (boidIndex: nat) (ent_x: real) (ent_y: real)

text \<open>
  A node of the class \<open>QuadTree\<close>: \<open>Leaf\<close> is a node with \<open>divided_ = false\<close> (its four
  child pointers are null), \<open>Div\<close> a node with \<open>divided_ = true\<close> and its four children
  in the order of \<open>children_[0..3]\<close>.
\<close>

datatype QuadTree =
    Leaf (bounds: Rect) (level: nat) (objects: "QTEntry list")
  | Div (bounds: Rect) (level: nat) (objects: "QTEntry list")
      (child0: QuadTree) (child1: QuadTree) (child2: QuadTree) (child3: QuadTree)

definition qt_clear :: "QuadTree \<Rightarrow> QuadTree" where
  "qt_clear t = Leaf (bounds t) (level t) []"

text \<open>The four quadrants that \<open>subdivide\<close> creates, each an empty node one level down.\<close>

definition quadrant :: "nat \<Rightarrow> Rect \<Rightarrow> Rect" where
  "quadrant k b =
     (let hw = rect_w b * (1 / 2); hh = rect_h b * (1 / 2); x = rect_x b; y = rect_y b
      in if k = 0 then Rect x y hw hh
         else if k = 1 then Rect (x + hw) y hw hh
         else if k = 2 then Rect x (y + hh) hw hh
         else Rect (x + hw) (y + hh) hw hh)"

definition subdivide :: "QuadTree \<Rightarrow> QuadTree" where
  "subdivide t =
     Div (bounds t) (level t) (objects t)
       (Leaf (quadrant 0 (bounds t)) (level t + 1) [])
       (Leaf (quadrant 1 (bounds t)) (level t + 1) [])
       (Leaf (quadrant 2 (bounds t)) (level t + 1) [])
       (Leaf (quadrant 3 (bounds t)) (level t + 1) [])"

text \<open>
  Termination weight of \<open>insert\<close>: a leaf that must subdivide weighs more than the
  freshly subdivided node, whose children are empty leaves.
\<close>

fun qt_weight :: "QuadTree \<Rightarrow> nat" where
  "qt_weight (Leaf b l objs) =
     (if length objs < QUADTREE_MAX_OBJECTS \<or> l \<ge> QUADTREE_MAX_LEVELS then 0 else 2)"
| "qt_weight (Div b l objs c0 c1 c2 c3) =
     1 + qt_weight c0 + qt_weight c1 + qt_weight c2 + qt_weight c3"

function qt_insert :: "QTEntry \<Rightarrow> QuadTree \<Rightarrow> QuadTree" where
  "qt_insert e (Leaf b l objs) =
     (if \<not> contains b (ent_x e) (ent_y e) then Leaf b l objs
      else if length objs < QUADTREE_MAX_OBJECTS \<or> l \<ge> QUADTREE_MAX_LEVELS
      then Leaf b l (objs @ [e])
      else qt_insert e (subdivide (Leaf b l objs)))"
| "qt_insert e (Div b l objs c0 c1 c2 c3) =
     (if \<not> contains b (ent_x e) (ent_y e) then Div b l objs c0 c1 c2 c3
      else if length objs < QUADTREE_MAX_OBJECTS \<or> l \<ge> QUADTREE_MAX_LEVELS
      then Div b l (objs @ [e]) c0 c1 c2 c3
      else Div b l objs (qt_insert e c0) (qt_insert e c1) (qt_insert e c2) (qt_insert e c3))"
  by pat_completeness auto
termination
  by (relation "measure (\<lambda>(e, t). qt_weight t)")
     (auto simp: subdivide_def QUADTREE_MAX_OBJECTS_def)

text \<open>\<open>query\<close> appends to the vector \<open>found\<close>, which it is given and returns.\<close>

fun qt_query :: "Rect \<Rightarrow> QuadTree \<Rightarrow> QTEntry list \<Rightarrow> QTEntry list" where
  "qt_query rg (Leaf b l objs) found =
     (if \<not> intersects b rg then found
      else found @ filter (\<lambda>obj. contains rg (ent_x obj) (ent_y obj)) objs)"
| "qt_query rg (Div b l objs c0 c1 c2 c3) found =
     (if \<not> intersects b rg then found
      else qt_query rg c3 (qt_query rg c2 (qt_query rg c1 (qt_query rg c0
             (found @ filter (\<lambda>obj. contains rg (ent_x obj) (ent_y obj)) objs)))))"

text \<open>Inserting a sequence of entries, first to last, as the loop of \<open>buildQuadTree\<close> does.\<close>

fun insert_all :: "QTEntry list \<Rightarrow> QuadTree \<Rightarrow> QuadTree" where
  "insert_all [] t = t"
| "insert_all (e # es) t = insert_all es (qt_insert e t)"

subsection \<open>What a tree stores\<close>

fun entries :: "QuadTree \<Rightarrow> QTEntry multiset" where
  "entries (Leaf b l objs) = mset objs"
| "entries (Div b l objs c0 c1 c2 c3) =
     mset objs + entries c0 + entries c1 + entries c2 + entries c3"

definition inside :: "Rect \<Rightarrow> QTEntry \<Rightarrow> bool" where
  "inside r e \<longleftrightarrow> contains r (ent_x e) (ent_y e)"

text \<open>
  Well-formed trees: every node stores only points within its own bounds, and the
  children of a subdivided node cover its four quadrants.
\<close>

fun qt_wf :: "QuadTree \<Rightarrow> bool" where
  "qt_wf (Leaf b l objs) = list_all (inside b) objs"
| "qt_wf (Div b l objs c0 c1 c2 c3) =
     (list_all (inside b) objs \<and>
      bounds c0 = quadrant 0 b \<and> bounds c1 = quadrant 1 b \<and>
      bounds c2 = quadrant 2 b \<and> bounds c3 = quadrant 3 b \<and>
      qt_wf c0 \<and> qt_wf c1 \<and> qt_wf c2 \<and> qt_wf c3)"

section \<open>Entities and engine state\<close>

record Boid =
  boid_id :: "32 word"
  playerId :: "32 word"
  pos :: Vec2
  vel :: Vec2

record Mutations =
  speed :: real
  cohesion :: real
  aggression :: real
  collectRange :: real

record Player =
  player_id :: "32 word"
  cursor :: Vec2
  mutations :: Mutations
  score :: int
  alive :: bool
  boosting :: bool
  boostFuel :: real
  shieldTicks :: int
  speedBurstTicks :: int
  slowTicks :: int

record Resource =
  res_id :: "32 word"
  res_pos :: Vec2
  res_value :: int
  res_type :: "8 word"
  res_active :: bool

record Pickup =
  pk_id :: "32 word"
  pk_pos :: Vec2
  pk_type :: "8 word"
  pk_active :: bool

text \<open>
  The members of \<open>GameEngine\<close>. \<open>players_\<close> (an \<open>unordered_map\<close>) is a partial map from
  ids to records. The generator \<open>rng_\<close> is the stream of unit samples it is going to
  produce; \<open>std::mt19937\<close> and the distributions are library code.
\<close>

record GameEngine =
  players :: "32 word \<rightharpoonup> Player"
  boids :: "Boid list"
  resources :: "Resource list"
  pickups :: "Pickup list"
  quadTree :: QuadTree
  nextPlayerId :: "32 word"
  nextBoidId :: "32 word"
  nextResourceId :: "32 word"
  nextPickupId :: "32 word"
  resourceSpawnAccum :: real
  pickupSpawnAccum :: real
  rng :: "nat \<Rightarrow> real"

subsection \<open>Random draws\<close>

definition rng_next :: "(nat \<Rightarrow> real) \<Rightarrow> real \<times> (nat \<Rightarrow> real)" where
  "rng_next g = (frac (g 0), \<lambda>n. g (Suc n))"

definition uniform_real :: "real \<Rightarrow> real \<Rightarrow> (nat \<Rightarrow> real) \<Rightarrow> real \<times> (nat \<Rightarrow> real)" where
  "uniform_real a b g = (case rng_next g of (u, g') \<Rightarrow> (a + (b - a) * u, g'))"

definition uniform_int :: "int \<Rightarrow> int \<Rightarrow> (nat \<Rightarrow> real) \<Rightarrow> int \<times> (nat \<Rightarrow> real)" where
  "uniform_int a b g =
     (case rng_next g of (u, g') \<Rightarrow> (a + \<lfloor>real_of_int (b - a + 1) * u\<rfloor>, g'))"

definition randomPosition :: "GameEngine \<Rightarrow> Vec2 \<times> GameEngine" where
  "randomPosition s =
     (case uniform_real 100 (MAP_WIDTH - 100) (rng s) of (px, g1) \<Rightarrow>
      case uniform_real 100 (MAP_HEIGHT - 100) g1 of (py, g2) \<Rightarrow>
        (Vec2 px py, s\<lparr>rng := g2\<rparr>))"

subsection \<open>Lifecycle and input API\<close>

fun spawnBoidsLoop :: "32 word \<Rightarrow> Vec2 \<Rightarrow> nat \<Rightarrow> GameEngine \<Rightarrow> GameEngine" where
  "spawnBoidsLoop pid center 0 s = s"
| "spawnBoidsLoop pid center (Suc n) s =
     (case uniform_real (- 30) 30 (rng s) of (dx, g1) \<Rightarrow>
      case uniform_real (- 30) 30 g1 of (dy, g2) \<Rightarrow>
      case uniform_real (- 1) 1 g2 of (vx, g3) \<Rightarrow>
      case uniform_real (- 1) 1 g3 of (vy, g4) \<Rightarrow>
        spawnBoidsLoop pid center n
          (s\<lparr>boids := boids s @
                 [\<lparr>boid_id = nextBoidId s, playerId = pid,
                   pos = Vec2 (vec_x center + dx) (vec_y center + dy), vel = Vec2 vx vy\<rparr>],
             nextBoidId := nextBoidId s + 1, rng := g4\<rparr>))"

definition spawnBoidsForPlayer :: "32 word \<Rightarrow> nat \<Rightarrow> GameEngine \<Rightarrow> GameEngine" where
  "spawnBoidsForPlayer pid cnt s =
     (case randomPosition s of (center, s1) \<Rightarrow> spawnBoidsLoop pid center cnt s1)"

definition newPlayer :: "32 word \<Rightarrow> Player" where
  "newPlayer pid =
     \<lparr>player_id = pid, cursor = Vec2 (MAP_WIDTH * (1 / 2)) (MAP_HEIGHT * (1 / 2)),
      mutations = \<lparr>speed = 1, cohesion = 1, aggression = 1, collectRange = 1\<rparr>,
      score = 0, alive = True, boosting = False, boostFuel = 1,
      shieldTicks = 0, speedBurstTicks = 0, slowTicks = 0\<rparr>"

definition addPlayer :: "GameEngine \<Rightarrow> 32 word \<times> GameEngine" where
  "addPlayer s =
     (let pid = nextPlayerId s;
          s1 = s\<lparr>nextPlayerId := pid + 1, players := (players s)(pid \<mapsto> newPlayer pid)\<rparr>
      in (pid, spawnBoidsForPlayer pid INITIAL_BOIDS s1))"

definition removePlayer :: "32 word \<Rightarrow> GameEngine \<Rightarrow> GameEngine" where
  "removePlayer pid s =
     s\<lparr>players := (players s)(pid := None),
       boids := filter (\<lambda>b. \<not> (playerId b = pid)) (boids s)\<rparr>"

definition setPlayerCursor :: "32 word \<Rightarrow> real \<Rightarrow> real \<Rightarrow> GameEngine \<Rightarrow> GameEngine" where
  "setPlayerCursor pid cx cy s =
     (case players s pid of
        None \<Rightarrow> s
      | Some p \<Rightarrow> s\<lparr>players := (players s)(pid \<mapsto> p\<lparr>cursor := Vec2 cx cy\<rparr>)\<rparr>)"

definition setPlayerBoost :: "32 word \<Rightarrow> bool \<Rightarrow> GameEngine \<Rightarrow> GameEngine" where
  "setPlayerBoost pid active s =
     (case players s pid of
        None \<Rightarrow> s
      | Some p \<Rightarrow> s\<lparr>players := (players s)(pid \<mapsto> p\<lparr>boosting := active\<rparr>)\<rparr>)"

subsection \<open>Spawning\<close>

definition spawnResources :: "GameEngine \<Rightarrow> GameEngine" where
  "spawnResources s =
     (let activeCount = length (filter res_active (resources s))
      in if activeCount \<ge> MAX_RESOURCES then s
         else
           case randomPosition s of (p, s1) \<Rightarrow>
           case uniform_int RESOURCE_VALUE_MIN RESOURCE_VALUE_MAX (rng s1) of (v, g1) \<Rightarrow>
           case uniform_int 0 3 g1 of (ty, g2) \<Rightarrow>
             s1\<lparr>resources := resources s @
                   [\<lparr>res_id = nextResourceId s, res_pos = p, res_value = v,
                     res_type = word_of_int ty, res_active = True\<rparr>],
                nextResourceId := nextResourceId s + 1, rng := g2\<rparr>)"

text \<open>
  \<open>spawnPickups\<close>: the cap on active pickups is tested first, before the counter
  \<open>pickupSpawnAccum_\<close> is touched.
\<close>

definition spawnPickups :: "GameEngine \<Rightarrow> GameEngine" where
  "spawnPickups s =
     (let activeCount = length (filter pk_active (pickups s))
      in if activeCount \<ge> MAX_PICKUPS then s
         else
           let s1 = s\<lparr>pickupSpawnAccum := pickupSpawnAccum s + 1\<rparr>
           in if pickupSpawnAccum s1 < PICKUP_SPAWN_INTERVAL then s1
              else
                let s2 = s1\<lparr>pickupSpawnAccum := 0\<rparr>
                in case randomPosition s2 of (p, s3) \<Rightarrow>
                   case uniform_int 0 7 (rng s3) of (ty, g1) \<Rightarrow>
                     s3\<lparr>pickups := pickups s3 @
                           [\<lparr>pk_id = nextPickupId s3, pk_pos = p,
                             pk_type = word_of_int ty, pk_active = True\<rparr>],
                        nextPickupId := nextPickupId s3 + 1, rng := g1\<rparr>)"

definition boidEntry :: "Boid list \<Rightarrow> nat \<Rightarrow> QTEntry" where
  "boidEntry bs i = QTEntry i (vec_x (pos (bs ! i))) (vec_y (pos (bs ! i)))"

definition buildQuadTree :: "GameEngine \<Rightarrow> GameEngine" where
  "buildQuadTree s =
     s\<lparr>quadTree :=
         insert_all (map (boidEntry (boids s)) [0..<length (boids s)]) (qt_clear (quadTree s))\<rparr>"

subsection \<open>Flocking and movement\<close>

record FlockAcc =
  separation :: Vec2
  alignment :: Vec2
  cohesionCenter :: Vec2
  alignCount :: nat
  cohesionCount :: nat
  closestEnemyDist :: real
  closestEnemyIdx :: "nat option"

text \<open>
  One iteration of the loop over \<open>nearby\<close> for the boid at index \<open>i\<close>. Reading
  \<open>boids_[ne.boidIndex]\<close> past the end of the vector is undefined behaviour: the model
  stops with \<open>None\<close>.
\<close>

definition flockNeighbor ::
  "Mutations \<Rightarrow> nat \<Rightarrow> Boid list \<Rightarrow> QTEntry \<Rightarrow> FlockAcc \<Rightarrow> FlockAcc option" where
  "flockNeighbor mut i bs ne acc =
     (if boidIndex ne = i then Some acc
      else if boidIndex ne \<ge> length bs then None
      else
        let boid = bs ! i; other = bs ! boidIndex ne;
            effectiveCohesionRadius = COHESION_RADIUS * cohesion mut;
            diff = vsub (pos boid) (pos other);
            distSq = lengthSq diff;
            dist = sqrt distSq
        in if playerId other = playerId boid then
             let acc1 = (if dist < SEPARATION_RADIUS \<and> dist > 1 / 100
                         then acc\<lparr>separation := vadd (separation acc) (vscale diff (1 / dist))\<rparr>
                         else acc);
                 acc2 = (if dist < ALIGNMENT_RADIUS
                         then acc1\<lparr>alignment := vadd (alignment acc1) (vel other),
                                   alignCount := alignCount acc1 + 1\<rparr>
                         else acc1);
                 acc3 = (if dist < effectiveCohesionRadius
                         then acc2\<lparr>cohesionCenter := vadd (cohesionCenter acc2) (pos other),
                                   cohesionCount := cohesionCount acc2 + 1\<rparr>
                         else acc2)
             in Some acc3
           else
             let aggroRange = BOID_BASE_AGGRESSION * aggression mut
             in if dist < aggroRange \<and> dist < closestEnemyDist acc
                then Some (acc\<lparr>closestEnemyDist := dist,
                               closestEnemyIdx := Some (boidIndex ne)\<rparr>)
                else Some acc)"

fun flockNeighbors ::
  "Mutations \<Rightarrow> nat \<Rightarrow> Boid list \<Rightarrow> QTEntry list \<Rightarrow> FlockAcc \<Rightarrow> FlockAcc option" where
  "flockNeighbors mut i bs [] acc = Some acc"
| "flockNeighbors mut i bs (ne # nes) acc =
     (case flockNeighbor mut i bs ne acc of
        None \<Rightarrow> None
      | Some acc' \<Rightarrow> flockNeighbors mut i bs nes acc')"

definition steerBoid :: "Player \<Rightarrow> FlockAcc \<Rightarrow> Boid list \<Rightarrow> Boid \<Rightarrow> Boid" where
  "steerBoid player acc bs boid =
     (let mut = mutations player;
          steer0 = vadd (Vec2 0 0) (vscale (separation acc) SEPARATION_WEIGHT);
          steer1 = (if alignCount acc > 0
                    then let al = vscale (alignment acc) (1 / real (alignCount acc));
                             alignSteer = clampLength (1 / 2) (vsub al (vel boid))
                         in vadd steer0 (vscale alignSteer ALIGNMENT_WEIGHT)
                    else steer0);
          steer2 = (if cohesionCount acc > 0
                    then let cc = vscale (cohesionCenter acc) (1 / real (cohesionCount acc));
                             toCenter = clampLength (1 / 2) (vsub cc (pos boid))
                         in vadd steer1 (vscale toCenter (COHESION_WEIGHT * cohesion mut))
                    else steer1);
          toCursor = vsub (cursor player) (pos boid);
          cursorDist = vlength toCursor;
          steer3 = (if cursorDist > 5
                    then vadd steer2 (vscale (normalized toCursor) CURSOR_WEIGHT)
                    else steer2);
          steer4 = (case closestEnemyIdx acc of
                      None \<Rightarrow> steer3
                    | Some j \<Rightarrow>
                        vadd steer3 (vscale (normalized (vsub (pos (bs ! j)) (pos boid)))
                                       (3 / 2 * aggression mut)));
          v1 = vadd (vel boid) steer4;
          maxSpeed0 = BOID_BASE_SPEED * speed mut;
          maxSpeed1 = (if boosting player \<and> boostFuel player > 0
                       then maxSpeed0 * BOOST_SPEED_MULT else maxSpeed0);
          maxSpeed2 = (if speedBurstTicks player > 0
                       then maxSpeed1 * SPEED_BURST_MULT else maxSpeed1);
          maxSpeed3 = (if slowTicks player > 0 then maxSpeed2 * SLOW_MULT else maxSpeed2);
          v2 = clampLength maxSpeed3 v1
      in boid\<lparr>vel := v2, pos := vadd (pos boid) v2\<rparr>)"

definition initFlockAcc :: FlockAcc where
  "initFlockAcc =
     \<lparr>separation = Vec2 0 0, alignment = Vec2 0 0, cohesionCenter = Vec2 0 0,
      alignCount = 0, cohesionCount = 0, closestEnemyDist = 1000000000,
      closestEnemyIdx = None\<rparr>"

definition applyRulesBoid ::
  "(32 word \<rightharpoonup> Player) \<Rightarrow> QuadTree \<Rightarrow> nat \<Rightarrow> Boid list \<Rightarrow> Boid list option" where
  "applyRulesBoid ps qt i bs =
     (let boid = bs ! i
      in case ps (playerId boid) of
           None \<Rightarrow> Some bs
         | Some player \<Rightarrow>
             let mut = mutations player;
                 effectiveCohesionRadius = COHESION_RADIUS * cohesion mut;
                 queryR = max (max (max SEPARATION_RADIUS ALIGNMENT_RADIUS)
                                 effectiveCohesionRadius)
                            (BOID_BASE_AGGRESSION * aggression mut);
                 queryRect = Rect (vec_x (pos boid) - queryR) (vec_y (pos boid) - queryR)
                               (queryR * 2) (queryR * 2);
                 nearby = qt_query queryRect qt []
             in case flockNeighbors mut i bs nearby initFlockAcc of
                  None \<Rightarrow> None
                | Some acc \<Rightarrow> Some (bs[i := steerBoid player acc bs boid]))"

fun applyRulesLoop ::
  "(32 word \<rightharpoonup> Player) \<Rightarrow> QuadTree \<Rightarrow> nat list \<Rightarrow> Boid list \<Rightarrow> Boid list option" where
  "applyRulesLoop ps qt [] bs = Some bs"
| "applyRulesLoop ps qt (i # is) bs =
     (case applyRulesBoid ps qt i bs of
        None \<Rightarrow> None
      | Some bs' \<Rightarrow> applyRulesLoop ps qt is bs')"

definition applyBoidRules :: "GameEngine \<Rightarrow> GameEngine option" where
  "applyBoidRules s =
     (case applyRulesLoop (players s) (quadTree s) [0..<length (boids s)] (boids s) of
        None \<Rightarrow> None
      | Some bs \<Rightarrow> Some (s\<lparr>boids := bs\<rparr>))"

subsection \<open>Bounds clamp\<close>

definition clampBoid :: "Boid \<Rightarrow> Boid" where
  "clampBoid b =
     (let b1 = (if vec_x (pos b) < 0
                then b\<lparr>pos := Vec2 0 (vec_y (pos b)),
                       vel := Vec2 (vec_x (vel b) * (- (1 / 2))) (vec_y (vel b))\<rparr>
                else b);
          b2 = (if vec_x (pos b1) > MAP_WIDTH
                then b1\<lparr>pos := Vec2 MAP_WIDTH (vec_y (pos b1)),
                        vel := Vec2 (vec_x (vel b1) * (- (1 / 2))) (vec_y (vel b1))\<rparr>
                else b1);
          b3 = (if vec_y (pos b2) < 0
                then b2\<lparr>pos := Vec2 (vec_x (pos b2)) 0,
                        vel := Vec2 (vec_x (vel b2)) (vec_y (vel b2) * (- (1 / 2)))\<rparr>
                else b2);
          b4 = (if vec_y (pos b3) > MAP_HEIGHT
                then b3\<lparr>pos := Vec2 (vec_x (pos b3)) MAP_HEIGHT,
                        vel := Vec2 (vec_x (vel b3)) (vec_y (vel b3) * (- (1 / 2)))\<rparr>
                else b3)
      in b4)"

definition clampPositions :: "GameEngine \<Rightarrow> GameEngine" where
  "clampPositions s = s\<lparr>boids := map clampBoid (boids s)\<rparr>"



subsection \<open>Resource collection\<close>

definition countOwned :: "32 word \<Rightarrow> Boid list \<Rightarrow> int" where
  "countOwned pid bs = int (length (filter (\<lambda>bb. playerId bb = pid) bs))"

definition applyMutation :: "8 word \<Rightarrow> real \<Rightarrow> Mutations \<Rightarrow> Mutations" where
  "applyMutation ty boost m =
     (if ty = 0 then m\<lparr>speed := speed m + boost\<rparr>
      else if ty = 1 then m\<lparr>cohesion := cohesion m + boost\<rparr>
      else if ty = 2 then m\<lparr>aggression := aggression m + boost\<rparr>
      else if ty = 3 then m\<lparr>collectRange := collectRange m + boost\<rparr>
      else m)"

text \<open>
  The body of the branch that consumes a resource: \<open>b\<close> is the consuming boid and
  \<open>pl\<close> the record found under the key \<open>b.playerId\<close>, which is updated in place.
\<close>

definition consumeResource ::
  "Resource \<Rightarrow> Boid \<Rightarrow> Player \<Rightarrow> GameEngine \<Rightarrow> Resource \<times> GameEngine" where
  "consumeResource res b pl s =
     (let player = pl\<lparr>score := score pl + res_value res,
                      mutations := applyMutation (res_type res)
                                     (2 / 100 * real_of_int (res_value res)) (mutations pl)\<rparr>;
          s1 = s\<lparr>players := (players s)(playerId b \<mapsto> player)\<rparr>;
          boidCount = countOwned (player_id player) (boids s1);
          s2 = (if boidCount < MAX_BOIDS_PER_PLAYER \<and> score player mod 3 = 0
                then s1\<lparr>boids := boids s1 @
                          [\<lparr>boid_id = nextBoidId s1, playerId = player_id player,
                            pos = pos b, vel = Vec2 0 0\<rparr>],
                        nextBoidId := nextBoidId s1 + 1\<rparr>
                else s1)
      in (res\<lparr>res_active := False\<rparr>, s2))"

fun resourceCandidates ::
  "Resource \<Rightarrow> QTEntry list \<Rightarrow> GameEngine \<Rightarrow> (Resource \<times> GameEngine) option" where
  "resourceCandidates res [] s = Some (res, s)"
| "resourceCandidates res (ne # nes) s =
     (if boidIndex ne \<ge> length (boids s) then None
      else
        let b = boids s ! boidIndex ne
        in case players s (playerId b) of
             None \<Rightarrow> resourceCandidates res nes s
           | Some pl \<Rightarrow>
               let cr = BOID_BASE_COLLECT_RANGE * collectRange (mutations pl);
                   diff = vsub (pos b) (res_pos res)
               in if lengthSq diff < cr * cr then Some (consumeResource res b pl s)
                  else resourceCandidates res nes s)"

definition resourceQueryRect :: "Resource \<Rightarrow> Rect" where
  "resourceQueryRect res =
     (let maxRange = BOID_BASE_COLLECT_RANGE * 3
      in Rect (vec_x (res_pos res) - maxRange) (vec_y (res_pos res) - maxRange)
           (maxRange * 2) (maxRange * 2))"

fun collectResourcesLoop ::
  "Resource list \<Rightarrow> GameEngine \<Rightarrow> (Resource list \<times> GameEngine) option" where
  "collectResourcesLoop [] s = Some ([], s)"
| "collectResourcesLoop (res # rest) s =
     (if \<not> res_active res
      then (case collectResourcesLoop rest s of
              None \<Rightarrow> None
            | Some (rs, s') \<Rightarrow> Some (res # rs, s'))
      else
        case resourceCandidates res (qt_query (resourceQueryRect res) (quadTree s) []) s of
          None \<Rightarrow> None
        | Some (res', s1) \<Rightarrow>
            (case collectResourcesLoop rest s1 of
               None \<Rightarrow> None
             | Some (rs, s') \<Rightarrow> Some (res' # rs, s')))"

definition collectResources :: "GameEngine \<Rightarrow> GameEngine option" where
  "collectResources s =
     (case collectResourcesLoop (resources s) s of
        None \<Rightarrow> None
      | Some (rs, s') \<Rightarrow> Some (s'\<lparr>resources := filter res_active rs\<rparr>))"

subsection \<open>Pickup collection\<close>

definition erase_at :: "nat \<Rightarrow> 'a list \<Rightarrow> 'a list" where
  "erase_at i xs = take i xs @ drop (Suc i) xs"

text \<open>
  The spawn loop of the MASS_SPAWN case. The source reads the position of the consuming
  boid through the reference \<open>b\<close> in every iteration; the model takes the position the
  boid has when the pickup is consumed.
\<close>

fun massSpawnLoop :: "32 word \<Rightarrow> Vec2 \<Rightarrow> nat \<Rightarrow> GameEngine \<Rightarrow> GameEngine" where
  "massSpawnLoop pid bpos 0 s = s"
| "massSpawnLoop pid bpos (Suc n) s =
     (case uniform_real (- 20) 20 (rng s) of (dx, g1) \<Rightarrow>
      case uniform_real (- 20) 20 g1 of (dy, g2) \<Rightarrow>
        massSpawnLoop pid bpos n
          (s\<lparr>boids := boids s @
                 [\<lparr>boid_id = nextBoidId s, playerId = pid,
                   pos = Vec2 (vec_x bpos + dx) (vec_y bpos + dy), vel = Vec2 0 0\<rparr>],
             nextBoidId := nextBoidId s + 1, rng := g2\<rparr>))"

definition scatterBoid :: "32 word \<Rightarrow> Vec2 \<Rightarrow> Boid \<Rightarrow> Boid" where
  "scatterBoid pid ppos bb =
     (if \<not> (playerId bb = pid) then bb
      else
        let dir = vsub (pos bb) ppos;
            d = vlength dir;
            dir' = (if d < 1 / 100 then Vec2 1 0 else normalized dir)
        in bb\<lparr>vel := vscale dir' SCATTER_FORCE\<rparr>)"

text \<open>
  The loop of the MINE case, from the last stored boid backwards; the first argument
  counts the indices still to visit (\<open>bi + 1\<close>), and \<open>bi\<close> is always below the length of
  the current vector.
\<close>

fun mineLoop :: "32 word \<Rightarrow> nat \<Rightarrow> nat \<Rightarrow> Boid list \<Rightarrow> Boid list" where
  "mineLoop pid 0 killed bs = bs"
| "mineLoop pid (Suc bi) killed bs =
     (if killed < MINE_KILL_COUNT
      then (if playerId (bs ! bi) = pid
            then mineLoop pid bi (killed + 1) (erase_at bi bs)
            else mineLoop pid bi killed bs)
      else bs)"

definition applyPickup :: "Pickup \<Rightarrow> Boid \<Rightarrow> Player \<Rightarrow> GameEngine \<Rightarrow> GameEngine" where
  "applyPickup pickup b player s =
     (let ty = pk_type pickup; key = playerId b
      in if ty = 0 then s\<lparr>players := (players s)(key \<mapsto> player\<lparr>boostFuel := 1\<rparr>)\<rparr>
         else if ty = 1 then
           (let boidCount = countOwned (player_id player) (boids s);
                toSpawn = min 5 (MAX_BOIDS_PER_PLAYER - boidCount)
            in if toSpawn > 0 then massSpawnLoop (player_id player) (pos b) (nat toSpawn) s
               else s)
         else if ty = 2 then
           s\<lparr>players := (players s)(key \<mapsto> player\<lparr>shieldTicks := SHIELD_DURATION\<rparr>)\<rparr>
         else if ty = 3 then
           s\<lparr>players := (players s)(key \<mapsto> player\<lparr>speedBurstTicks := SPEED_BURST_DURATION\<rparr>)\<rparr>
         else if ty = 4 then
           s\<lparr>players := (players s)(key \<mapsto> player\<lparr>slowTicks := SLOW_DURATION\<rparr>)\<rparr>
         else if ty = 5 then
           s\<lparr>boids := map (scatterBoid (player_id player) (pk_pos pickup)) (boids s)\<rparr>
         else if ty = 6 then
           s\<lparr>players := (players s)(key \<mapsto> player\<lparr>boostFuel := 0, boosting := False\<rparr>)\<rparr>
         else if ty = 7 then
           s\<lparr>boids := mineLoop (player_id player) (length (boids s)) 0 (boids s)\<rparr>
         else s)"

fun pickupCandidates ::
  "Pickup \<Rightarrow> QTEntry list \<Rightarrow> GameEngine \<Rightarrow> (Pickup \<times> GameEngine) option" where
  "pickupCandidates pickup [] s = Some (pickup, s)"
| "pickupCandidates pickup (ne # nes) s =
     (if boidIndex ne \<ge> length (boids s) then None
      else
        let b = boids s ! boidIndex ne;
            diff = vsub (pos b) (pk_pos pickup)
        in if lengthSq diff \<ge> PICKUP_COLLECT_RADIUS * PICKUP_COLLECT_RADIUS
           then pickupCandidates pickup nes s
           else
             case players s (playerId b) of
               None \<Rightarrow> pickupCandidates pickup nes s
             | Some player \<Rightarrow>
                 Some (pickup\<lparr>pk_active := False\<rparr>, applyPickup pickup b player s))"

definition pickupQueryRect :: "Pickup \<Rightarrow> Rect" where
  "pickupQueryRect pickup =
     Rect (vec_x (pk_pos pickup) - PICKUP_COLLECT_RADIUS)
          (vec_y (pk_pos pickup) - PICKUP_COLLECT_RADIUS)
          (PICKUP_COLLECT_RADIUS * 2) (PICKUP_COLLECT_RADIUS * 2)"

fun collectPickupsLoop ::
  "Pickup list \<Rightarrow> GameEngine \<Rightarrow> (Pickup list \<times> GameEngine) option" where
  "collectPickupsLoop [] s = Some ([], s)"
| "collectPickupsLoop (pickup # rest) s =
     (if \<not> pk_active pickup
      then (case collectPickupsLoop rest s of
              None \<Rightarrow> None
            | Some (ps, s') \<Rightarrow> Some (pickup # ps, s'))
      else
        case pickupCandidates pickup (qt_query (pickupQueryRect pickup) (quadTree s) []) s of
          None \<Rightarrow> None
        | Some (pickup', s1) \<Rightarrow>
            (case collectPickupsLoop rest s1 of
               None \<Rightarrow> None
             | Some (ps, s') \<Rightarrow> Some (pickup' # ps, s')))"

definition collectPickups :: "GameEngine \<Rightarrow> GameEngine option" where
  "collectPickups s =
     (case collectPickupsLoop (pickups s) s of
        None \<Rightarrow> None
      | Some (ps, s') \<Rightarrow> Some (s'\<lparr>pickups := filter pk_active ps\<rparr>))"

subsection \<open>Combat resolution\<close>

text \<open>\<open>boidCounts\<close>: \<open>operator[]\<close> of the map starts every absent key at 0.\<close>

fun countBoids :: "Boid list \<Rightarrow> (32 word \<Rightarrow> int) \<Rightarrow> (32 word \<Rightarrow> int)" where
  "countBoids [] c = c"
| "countBoids (b # bs) c = countBoids bs (c(playerId b := c (playerId b) + 1))"

definition shielded :: "(32 word \<rightharpoonup> Player) \<Rightarrow> 32 word \<Rightarrow> bool" where
  "shielded ps pid = (case ps pid of None \<Rightarrow> False | Some p \<Rightarrow> shieldTicks p > 0)"

text \<open>
  The comparison of the boid at index \<open>i\<close> with the adjacent enemy at index \<open>j\<close>; the
  first component of the result tells whether the inner loop breaks.
\<close>

definition combatPair ::
  "(32 word \<rightharpoonup> Player) \<Rightarrow> Boid list \<Rightarrow> nat \<Rightarrow> nat \<Rightarrow> nat list \<times> (32 word \<Rightarrow> int) \<Rightarrow>
     bool \<times> nat list \<times> (32 word \<Rightarrow> int)" where
  "combatPair ps bs i j st =
     (case st of (toRemove, boidCounts) \<Rightarrow>
        let myCount = boidCounts (playerId (bs ! i));
            otherCount = boidCounts (playerId (bs ! j));
            myShield = shielded ps (playerId (bs ! i));
            otherShield = shielded ps (playerId (bs ! j))
        in if myCount < otherCount \<and> \<not> myShield
           then (True, toRemove @ [i], boidCounts(playerId (bs ! i) := myCount - 1))
           else if otherCount < myCount \<and> \<not> otherShield
           then (False, toRemove @ [j], boidCounts(playerId (bs ! j) := otherCount - 1))
           else (False, toRemove, boidCounts))"

fun combatNearby ::
  "(32 word \<rightharpoonup> Player) \<Rightarrow> Boid list \<Rightarrow> nat \<Rightarrow> QTEntry list \<Rightarrow>
     nat list \<times> (32 word \<Rightarrow> int) \<Rightarrow> (nat list \<times> (32 word \<Rightarrow> int)) option" where
  "combatNearby ps bs i [] st = Some st"
| "combatNearby ps bs i (ne # nes) st =
     (if boidIndex ne = i then combatNearby ps bs i nes st
      else if boidIndex ne \<ge> length bs then None
      else
        let other = bs ! boidIndex ne
        in if playerId other = playerId (bs ! i) then combatNearby ps bs i nes st
           else if lengthSq (vsub (pos (bs ! i)) (pos other))
                     < COMBAT_ABSORB_RADIUS * COMBAT_ABSORB_RADIUS
           then (case combatPair ps bs i (boidIndex ne) st of
                   (brk, st') \<Rightarrow> if brk then Some st' else combatNearby ps bs i nes st')
           else combatNearby ps bs i nes st)"

definition combatQueryRect :: "Boid \<Rightarrow> Rect" where
  "combatQueryRect b =
     Rect (vec_x (pos b) - COMBAT_ABSORB_RADIUS) (vec_y (pos b) - COMBAT_ABSORB_RADIUS)
          (COMBAT_ABSORB_RADIUS * 2) (COMBAT_ABSORB_RADIUS * 2)"

fun combatScan ::
  "(32 word \<rightharpoonup> Player) \<Rightarrow> QuadTree \<Rightarrow> Boid list \<Rightarrow> nat list \<Rightarrow>
     nat list \<times> (32 word \<Rightarrow> int) \<Rightarrow> (nat list \<times> (32 word \<Rightarrow> int)) option" where
  "combatScan ps qt bs [] st = Some st"
| "combatScan ps qt bs (i # is) st =
     (case combatNearby ps bs i (qt_query (combatQueryRect (bs ! i)) qt []) st of
        None \<Rightarrow> None
      | Some st' \<Rightarrow> combatScan ps qt bs is st')"

text \<open>
  The removal loop, given the marked indices from the last one to the first one; an
  index past the end of the current vector is skipped.
\<close>

fun removeBackToFront :: "nat list \<Rightarrow> Boid list \<Rightarrow> Boid list" where
  "removeBackToFront [] bs = bs"
| "removeBackToFront (idx # rest) bs =
     removeBackToFront rest (if idx < length bs then erase_at idx bs else bs)"

definition handleCombat :: "GameEngine \<Rightarrow> GameEngine option" where
  "handleCombat s =
     (case combatScan (players s) (quadTree s) (boids s) [0..<length (boids s)]
             ([], countBoids (boids s) (\<lambda>pid. 0)) of
        None \<Rightarrow> None
      | Some (toRemove, boidCounts) \<Rightarrow>
          Some (s\<lparr>boids := removeBackToFront (rev (remdups_adj (sort toRemove))) (boids s)\<rparr>))"

subsection \<open>The tick\<close>

definition boostUpdate :: "Player \<Rightarrow> Player" where
  "boostUpdate player =
     (let p1 = (if boosting player \<and> boostFuel player > 0
                then (let p' = player\<lparr>boostFuel := boostFuel player - BOOST_DRAIN_RATE\<rparr>
                      in if boostFuel p' \<le> 0 then p'\<lparr>boostFuel := 0, boosting := False\<rparr>
                         else p')
                else if \<not> boosting player \<and> boostFuel player < 1
                then (let p' = player\<lparr>boostFuel := boostFuel player + BOOST_RECHARGE_RATE\<rparr>
                      in if boostFuel p' > 1 then p'\<lparr>boostFuel := 1\<rparr> else p')
                else player)
      in if boosting p1 \<and> boostFuel p1 < BOOST_MIN_FUEL then p1\<lparr>boosting := False\<rparr> else p1)"

definition effectsUpdate :: "Player \<Rightarrow> Player" where
  "effectsUpdate player =
     (let p1 = (if shieldTicks player > 0
                then player\<lparr>shieldTicks := shieldTicks player - 1\<rparr> else player);
          p2 = (if speedBurstTicks p1 > 0
                then p1\<lparr>speedBurstTicks := speedBurstTicks p1 - 1\<rparr> else p1);
          p3 = (if slowTicks p2 > 0 then p2\<lparr>slowTicks := slowTicks p2 - 1\<rparr> else p2)
      in p3)"

text \<open>
  A loop over all players that updates each record from its key and itself alone; the
  order of iteration has no effect.
\<close>

definition forEachPlayer :: "(32 word \<Rightarrow> Player \<Rightarrow> Player) \<Rightarrow> GameEngine \<Rightarrow> GameEngine" where
  "forEachPlayer f s = s\<lparr>players := (\<lambda>pid. map_option (f pid) (players s pid))\<rparr>"

definition tickPlayerEffects :: "GameEngine \<Rightarrow> GameEngine" where
  "tickPlayerEffects s = forEachPlayer (\<lambda>pid. effectsUpdate) s"

lemma spawnResources_accum [simp]:
  "resourceSpawnAccum (spawnResources s) = resourceSpawnAccum s"
  by (simp add: spawnResources_def randomPosition_def Let_def split: prod.splits)

function spawnResourcesWhile :: "GameEngine \<Rightarrow> GameEngine" where
  "spawnResourcesWhile s =
     (if resourceSpawnAccum s \<ge> 1
      then spawnResourcesWhile
             ((spawnResources s)\<lparr>resourceSpawnAccum := resourceSpawnAccum (spawnResources s) - 1\<rparr>)
      else s)"
  by pat_completeness auto
termination
proof (relation "measure (\<lambda>s. nat \<lfloor>resourceSpawnAccum s\<rfloor>)")
  show "wf (measure (\<lambda>s. nat \<lfloor>resourceSpawnAccum s\<rfloor>))" by simp
next
  fix s :: GameEngine
  assume "1 \<le> resourceSpawnAccum s"
  then have "\<lfloor>resourceSpawnAccum s - 1\<rfloor> < \<lfloor>resourceSpawnAccum s\<rfloor>"
    and "0 < \<lfloor>resourceSpawnAccum s\<rfloor>" by linarith+
  then show "((spawnResources s)\<lparr>resourceSpawnAccum := resourceSpawnAccum (spawnResources s) - 1\<rparr>, s)
        \<in> measure (\<lambda>s. nat \<lfloor>resourceSpawnAccum s\<rfloor>)"
    by simp
qed

definition checkAlive :: "Boid list \<Rightarrow> 32 word \<Rightarrow> Player \<Rightarrow> Player" where
  "checkAlive bs pid player =
     (let cnt = length (filter (\<lambda>b. playerId b = pid) bs)
      in if cnt = 0 \<and> alive player then player\<lparr>alive := False\<rparr> else player)"

definition tick :: "GameEngine \<Rightarrow> GameEngine option" where
  "tick s =
     (let s0 = forEachPlayer (\<lambda>pid. boostUpdate) s;
          s1 = tickPlayerEffects s0;
          s2 = spawnResourcesWhile
                 (s1\<lparr>resourceSpawnAccum := resourceSpawnAccum s1 + RESOURCE_SPAWN_RATE\<rparr>);
          s3 = spawnPickups s2;
          s4 = buildQuadTree s3
      in case applyBoidRules s4 of
           None \<Rightarrow> None
         | Some s5 \<Rightarrow>
             let s6 = clampPositions s5;
                 s7 = buildQuadTree s6
             in case collectResources s7 of
                  None \<Rightarrow> None
                | Some s8 \<Rightarrow>
                    (case collectPickups s8 of
                       None \<Rightarrow> None
                     | Some s9 \<Rightarrow>
                         (case handleCombat s9 of
                            None \<Rightarrow> None
                          | Some s10 \<Rightarrow>
                              Some (forEachPlayer (checkAlive (boids s10)) s10))))"

subsection \<open>Construction and runs of the public API\<close>

fun prespawn :: "nat \<Rightarrow> GameEngine \<Rightarrow> GameEngine" where
  "prespawn 0 s = s"
| "prespawn (Suc n) s = prespawn n ((spawnResources s)\<lparr>resourceSpawnAccum := 0\<rparr>)"

definition newEngine :: "(nat \<Rightarrow> real) \<Rightarrow> GameEngine" where
  "newEngine seed =
     prespawn (MAX_RESOURCES div 2)
       \<lparr>players = Map.empty, boids = [], resources = [], pickups = [],
        quadTree = Leaf (Rect 0 0 MAP_WIDTH MAP_HEIGHT) 0 [],
        nextPlayerId = 1, nextBoidId = 1, nextResourceId = 1, nextPickupId = 1,
        resourceSpawnAccum = 0, pickupSpawnAccum = 0, rng = seed\<rparr>"

datatype api_call =
    AddPlayer
  | RemovePlayer "32 word"
  | SetPlayerCursor "32 word" real real
  | SetPlayerBoost "32 word" bool
  | Tick

fun api_step :: "api_call \<Rightarrow> GameEngine \<Rightarrow> GameEngine option" where
  "api_step AddPlayer s = Some (snd (addPlayer s))"
| "api_step (RemovePlayer pid) s = Some (removePlayer pid s)"
| "api_step (SetPlayerCursor pid cx cy) s = Some (setPlayerCursor pid cx cy s)"
| "api_step (SetPlayerBoost pid active) s = Some (setPlayerBoost pid active s)"
| "api_step Tick s = tick s"

text \<open>A run stops with \<open>None\<close> where a tick meets undefined behaviour.\<close>

fun run :: "api_call list \<Rightarrow> GameEngine \<Rightarrow> GameEngine option" where
  "run [] s = Some s"
| "run (c # cs) s = (case api_step c s of None \<Rightarrow> None | Some s' \<Rightarrow> run cs s')"

declare spawnResourcesWhile.simps [simp del]

section \<open>Snapshot codec\<close>






















subsection \<open>The layout as the interface description states it\<close>








section \<open>Notions used in the proofs\<close>

text \<open>
  The invariant of reachable states: every boid's owner is a key of the player
  collection, every player record is stored under its own id, and every boost fuel lies
  between 0 and 1.
\<close>

definition inv2 :: "(32 word \<rightharpoonup> Player) \<Rightarrow> Boid list \<Rightarrow> bool" where
  "inv2 ps bs \<longleftrightarrow>
     playerId ` set bs \<subseteq> dom ps \<and>
     (\<forall>k p. ps k = Some p \<longrightarrow> player_id p = k \<and> 0 \<le> boostFuel p \<and> boostFuel p \<le> 1)"

definition eng_inv :: "GameEngine \<Rightarrow> bool" where
  "eng_inv s \<longleftrightarrow> inv2 (players s) (boids s)"

text \<open>Marked indices are in range and belong to boids whose owner has no active shield.\<close>

definition marks_ok :: "(32 word \<rightharpoonup> Player) \<Rightarrow> Boid list \<Rightarrow> nat list \<Rightarrow> bool" where
  "marks_ok ps bs toRemove \<longleftrightarrow>
     list_all (\<lambda>idx. idx < length bs \<and> \<not> shielded ps (playerId (bs ! idx))) toRemove"


text \<open>Every index stored in the spatial index is below the length of the boid collection.\<close>

definition index_in_range :: "QuadTree \<Rightarrow> Boid list \<Rightarrow> bool" where
  "index_in_range qt bs \<longleftrightarrow> (\<forall>e \<in># entries qt. boidIndex e < length bs)"

section \<open>Concrete inputs\<close>

definition c2_entries :: "QTEntry list" where
  "c2_entries =
     [QTEntry 0 10 10, QTEntry 1 20 20, QTEntry 2 30 30, QTEntry 3 40 40, QTEntry 4 50 50,
      QTEntry 5 60 60, QTEntry 6 70 70, QTEntry 7 80 80, QTEntry 8 3000 90,
      QTEntry 9 95 3000, QTEntry 10 45 45]"

text \<open>An engine with no players, boids, resources or pickups.\<close>

definition emptyEngine :: GameEngine where
  "emptyEngine =
     \<lparr>players = Map.empty, boids = [], resources = [], pickups = [],
      quadTree = Leaf (Rect 0 0 MAP_WIDTH MAP_HEIGHT) 0 [],
      nextPlayerId = 1, nextBoidId = 1, nextResourceId = 1, nextPickupId = 1,
      resourceSpawnAccum = 0, pickupSpawnAccum = 0, rng = (\<lambda>n. 0)\<rparr>"

text \<open>Two boids that left the map: one past the left and bottom edges, one past the top.\<close>

definition c7_state :: GameEngine where
  "c7_state =
     emptyEngine\<lparr>boids :=
       [\<lparr>boid_id = 1, playerId = 1, pos = Vec2 (- 5) 4100, vel = Vec2 2 4\<rparr>,
        \<lparr>boid_id = 2, playerId = 1, pos = Vec2 1200 (- 1), vel = Vec2 3 (- 3)\<rparr>]\<rparr>"

text \<open>
  Twenty active pickups (the cap) and the counter at zero, as it stands after the
  twentieth spawn.
\<close>

definition c3_state :: GameEngine where
  "c3_state =
     emptyEngine\<lparr>pickups :=
       replicate 20 \<lparr>pk_id = 1, pk_pos = Vec2 500 500, pk_type = 0, pk_active = True\<rparr>\<rparr>"


text \<open>
  Five boids of one player, a MINE pickup on the first boid and a second pickup whose
  query rectangle holds the other four boids but not the first.
\<close>

definition c1_state :: GameEngine where
  "c1_state =
     emptyEngine
       \<lparr>players := [1 \<mapsto> newPlayer 1],
        boids :=
          [\<lparr>boid_id = 1, playerId = 1, pos = Vec2 1000 1000, vel = Vec2 0 0\<rparr>,
           \<lparr>boid_id = 2, playerId = 1, pos = Vec2 1010 1000, vel = Vec2 0 0\<rparr>,
           \<lparr>boid_id = 3, playerId = 1, pos = Vec2 1010 1001, vel = Vec2 0 0\<rparr>,
           \<lparr>boid_id = 4, playerId = 1, pos = Vec2 1010 1002, vel = Vec2 0 0\<rparr>,
           \<lparr>boid_id = 5, playerId = 1, pos = Vec2 1010 1003, vel = Vec2 0 0\<rparr>],
        pickups :=
          [\<lparr>pk_id = 1, pk_pos = Vec2 1000 1000, pk_type = 7, pk_active = True\<rparr>,
           \<lparr>pk_id = 2, pk_pos = Vec2 1035 1000, pk_type = 0, pk_active = True\<rparr>]\<rparr>"

text \<open>
  A player who has collected 42 resources of type 3 and value 3, with one boid 130
  units to the right of an active resource.
\<close>

definition c4_player :: Player where
  "c4_player =
     (newPlayer 1)\<lparr>score := 126,
       mutations := ((applyMutation 3 (2 / 100 * real_of_int 3)) ^^ 42) (mutations (newPlayer 1))\<rparr>"

definition c4_state :: GameEngine where
  "c4_state =
     emptyEngine
       \<lparr>players := [1 \<mapsto> c4_player],
        boids := [\<lparr>boid_id = 1, playerId = 1, pos = Vec2 1130 1000, vel = Vec2 0 0\<rparr>],
        resources :=
          [\<lparr>res_id = 1, res_pos = Vec2 1000 1000, res_value = 1, res_type = 0,
            res_active = True\<rparr>]\<rparr>"




section \<open>The spatial index answers queries exactly\<close>

lemma qt_insert_bounds [simp]: "bounds (qt_insert e t) = bounds t"
  by (induction e t rule: qt_insert.induct) (auto simp: subdivide_def)

lemma qt_insert_outside: "\<not> inside (bounds t) e \<Longrightarrow> qt_insert e t = t"
  by (cases t) (auto simp: inside_def)

lemma quadrant_cases:
  assumes "inside b e"
  shows "(inside (quadrant 0 b) e \<and> \<not> inside (quadrant 1 b) e \<and>
          \<not> inside (quadrant 2 b) e \<and> \<not> inside (quadrant 3 b) e) \<or>
         (\<not> inside (quadrant 0 b) e \<and> inside (quadrant 1 b) e \<and>
          \<not> inside (quadrant 2 b) e \<and> \<not> inside (quadrant 3 b) e) \<or>
         (\<not> inside (quadrant 0 b) e \<and> \<not> inside (quadrant 1 b) e \<and>
          inside (quadrant 2 b) e \<and> \<not> inside (quadrant 3 b) e) \<or>
         (\<not> inside (quadrant 0 b) e \<and> \<not> inside (quadrant 1 b) e \<and>
          \<not> inside (quadrant 2 b) e \<and> inside (quadrant 3 b) e)"
  using assms by (cases b) (auto simp: inside_def contains_def quadrant_def Let_def)

lemma qt_insert_wf: "qt_wf t \<Longrightarrow> qt_wf (qt_insert e t)"
  by (induction e t rule: qt_insert.induct)
     (auto simp: subdivide_def inside_def)

lemma qt_insert_entries:
  "qt_wf t \<Longrightarrow> inside (bounds t) e \<Longrightarrow> entries (qt_insert e t) = add_mset e (entries t)"
proof (induction e t rule: qt_insert.induct)
  case (1 e b l objs)
  then show ?case
    using quadrant_cases [of b e]
    by (auto simp: subdivide_def inside_def [symmetric] qt_insert_outside)
next
  case (2 e b l objs c0 c1 c2 c3)
  then show ?case
    using quadrant_cases [of b e]
    by (auto simp: inside_def [symmetric] qt_insert_outside)
qed

lemma inside_intersects: "inside b e \<Longrightarrow> inside rg e \<Longrightarrow> intersects b rg"
  by (auto simp: inside_def contains_def intersects_def)

lemma inside_quadrant: "inside (quadrant k b) e \<Longrightarrow> inside b e"
  by (cases b) (auto simp: inside_def contains_def quadrant_def Let_def split: if_splits)

lemma entries_inside: "qt_wf t \<Longrightarrow> e \<in># entries t \<Longrightarrow> inside (bounds t) e"
  by (induction t) (auto simp: list_all_iff dest: inside_quadrant)

lemma filter_entries_outside:
  assumes "qt_wf t" "\<not> intersects (bounds t) rg"
  shows "filter_mset (inside rg) (entries t) = {#}"
  using assms by (auto dest!: entries_inside dest: inside_intersects)

lemma qt_query_mset:
  "qt_wf t \<Longrightarrow>
   mset (qt_query rg t found) = mset found + filter_mset (inside rg) (entries t)"
proof (induction t arbitrary: found)
  case (Leaf b l objs)
  show ?case
  proof (cases "intersects b rg")
    case True
    then show ?thesis by (simp add: inside_def [abs_def])
  next
    case False
    with filter_entries_outside [of "Leaf b l objs" rg] Leaf.prems show ?thesis by simp
  qed
next
  case (Div b l objs c0 c1 c2 c3)
  show ?case
  proof (cases "intersects b rg")
    case True
    with Div show ?thesis by (simp add: inside_def [abs_def])
  next
    case False
    with filter_entries_outside [of "Div b l objs c0 c1 c2 c3" rg] Div.prems
    show ?thesis by simp
  qed
qed

lemma insert_all_wf: "qt_wf t \<Longrightarrow> qt_wf (insert_all es t)"
  by (induction es arbitrary: t) (auto simp: qt_insert_wf)

lemma insert_all_entries:
  "qt_wf t \<Longrightarrow> list_all (inside (bounds t)) es \<Longrightarrow>
   entries (insert_all es t) = entries t + mset es"
  by (induction es arbitrary: t) (auto simp: qt_insert_wf qt_insert_entries)

text \<open>
  Claim C2. For entries whose points lie inside the root bounds, inserted in any order
  into a cleared quadtree, and for every query rectangle, \<open>query\<close> returns exactly the
  inserted entries that satisfy the half-open containment predicate of the rectangle,
  each as often as it was inserted: nothing is omitted and nothing is duplicated.
\<close>

theorem quadtree_query_exact:
  assumes "list_all (inside (bounds t0)) es"
  shows "mset (qt_query rg (insert_all es (qt_clear t0)) []) =
           mset (filter (\<lambda>e. ent_x e \<ge> rect_x rg \<and> ent_x e < rect_x rg + rect_w rg \<and>
                              ent_y e \<ge> rect_y rg \<and> ent_y e < rect_y rg + rect_h rg) es)
         \<and> (distinct es \<longrightarrow> distinct (qt_query rg (insert_all es (qt_clear t0)) []))"
proof -
  let ?t = "insert_all es (qt_clear t0)"
  have wf0: "qt_wf (qt_clear t0)" by (simp add: qt_clear_def)
  have b0: "bounds (qt_clear t0) = bounds t0" by (simp add: qt_clear_def)
  have "entries ?t = mset es"
    using insert_all_entries [OF wf0] assms b0 by (simp add: qt_clear_def)
  moreover have "qt_wf ?t" using wf0 by (rule insert_all_wf)
  ultimately have m: "mset (qt_query rg ?t []) = mset (filter (inside rg) es)"
    by (simp add: qt_query_mset)
  have f: "inside rg = (\<lambda>e. ent_x e \<ge> rect_x rg \<and> ent_x e < rect_x rg + rect_w rg \<and>
                              ent_y e \<ge> rect_y rg \<and> ent_y e < rect_y rg + rect_h rg)"
    by (auto simp: inside_def contains_def fun_eq_iff)
  have "distinct es \<Longrightarrow> distinct (qt_query rg ?t [])"
  proof -
    assume "distinct es"
    then have "distinct (filter (inside rg) es)" by simp
    then show ?thesis using m by (metis mset_eq_imp_distinct_iff)
  qed
  with m f show ?thesis by simp
qed

theorem quadtree_query_exact_witness:
  "list_all (inside (bounds (Leaf (Rect 0 0 4000 4000) 0 []))) c2_entries \<and>
   mset (qt_query (Rect 35 35 15 15)
           (insert_all c2_entries (qt_clear (Leaf (Rect 0 0 4000 4000) 0 []))) []) =
     {#QTEntry 3 40 40, QTEntry 10 45 45#}"
proof -
  have h: "list_all (inside (bounds (Leaf (Rect 0 0 4000 4000) 0 []))) c2_entries"
    by (simp add: c2_entries_def inside_def contains_def)
  show ?thesis
    using h quadtree_query_exact [OF h, of "Rect 35 35 15 15"]
    by (simp add: c2_entries_def)
qed

section \<open>Bounds clamp and pickup spawn counter\<close>

text \<open>
  Claim C7. After the bounds-clamp step every boid lies within the map on both axes. On
  an axis where the boid had crossed an edge, the position is the edge value and the
  velocity component is negated and halved; on an axis where it had not, position and
  velocity component are unchanged. Identity and owner of each boid, the number of
  boids and the rest of the engine state are untouched.
\<close>

theorem clamp_step_bounds_and_frame:
  "length (boids (clampPositions s)) = length (boids s) \<and>
   (clampPositions s)\<lparr>boids := boids s\<rparr> = s \<and>
   (\<forall>i < length (boids s).
      let b = boids s ! i; b' = boids (clampPositions s) ! i
      in 0 \<le> vec_x (pos b') \<and> vec_x (pos b') \<le> MAP_WIDTH \<and>
         0 \<le> vec_y (pos b') \<and> vec_y (pos b') \<le> MAP_HEIGHT \<and>
         (vec_x (pos b) < 0 \<longrightarrow>
            vec_x (pos b') = 0 \<and> vec_x (vel b') = vec_x (vel b) * (- (1 / 2))) \<and>
         (vec_x (pos b) > MAP_WIDTH \<longrightarrow>
            vec_x (pos b') = MAP_WIDTH \<and> vec_x (vel b') = vec_x (vel b) * (- (1 / 2))) \<and>
         (0 \<le> vec_x (pos b) \<and> vec_x (pos b) \<le> MAP_WIDTH \<longrightarrow>
            vec_x (pos b') = vec_x (pos b) \<and> vec_x (vel b') = vec_x (vel b)) \<and>
         (vec_y (pos b) < 0 \<longrightarrow>
            vec_y (pos b') = 0 \<and> vec_y (vel b') = vec_y (vel b) * (- (1 / 2))) \<and>
         (vec_y (pos b) > MAP_HEIGHT \<longrightarrow>
            vec_y (pos b') = MAP_HEIGHT \<and> vec_y (vel b') = vec_y (vel b) * (- (1 / 2))) \<and>
         (0 \<le> vec_y (pos b) \<and> vec_y (pos b) \<le> MAP_HEIGHT \<longrightarrow>
            vec_y (pos b') = vec_y (pos b) \<and> vec_y (vel b') = vec_y (vel b)) \<and>
         boid_id b' = boid_id b \<and> playerId b' = playerId b)"
proof -
  have "\<And>b. let b' = clampBoid b
      in 0 \<le> vec_x (pos b') \<and> vec_x (pos b') \<le> MAP_WIDTH \<and>
         0 \<le> vec_y (pos b') \<and> vec_y (pos b') \<le> MAP_HEIGHT \<and>
         (vec_x (pos b) < 0 \<longrightarrow>
            vec_x (pos b') = 0 \<and> vec_x (vel b') = vec_x (vel b) * (- (1 / 2))) \<and>
         (vec_x (pos b) > MAP_WIDTH \<longrightarrow>
            vec_x (pos b') = MAP_WIDTH \<and> vec_x (vel b') = vec_x (vel b) * (- (1 / 2))) \<and>
         (0 \<le> vec_x (pos b) \<and> vec_x (pos b) \<le> MAP_WIDTH \<longrightarrow>
            vec_x (pos b') = vec_x (pos b) \<and> vec_x (vel b') = vec_x (vel b)) \<and>
         (vec_y (pos b) < 0 \<longrightarrow>
            vec_y (pos b') = 0 \<and> vec_y (vel b') = vec_y (vel b) * (- (1 / 2))) \<and>
         (vec_y (pos b) > MAP_HEIGHT \<longrightarrow>
            vec_y (pos b') = MAP_HEIGHT \<and> vec_y (vel b') = vec_y (vel b) * (- (1 / 2))) \<and>
         (0 \<le> vec_y (pos b) \<and> vec_y (pos b) \<le> MAP_HEIGHT \<longrightarrow>
            vec_y (pos b') = vec_y (pos b) \<and> vec_y (vel b') = vec_y (vel b)) \<and>
         boid_id b' = boid_id b \<and> playerId b' = playerId b"
    by (simp add: clampBoid_def Let_def MAP_WIDTH_def MAP_HEIGHT_def)
  then show ?thesis
    by (simp add: clampPositions_def Let_def)
qed

theorem clamp_step_bounds_and_frame_witness:
  "pos (boids (clampPositions c7_state) ! 0) = Vec2 0 4000 \<and>
   vel (boids (clampPositions c7_state) ! 0) = Vec2 (- 1) (- 2) \<and>
   pos (boids (clampPositions c7_state) ! 1) = Vec2 1200 0 \<and>
   vel (boids (clampPositions c7_state) ! 1) = Vec2 3 (3 / 2)"
proof -
  have l: "length (boids c7_state) = 2" by (simp add: c7_state_def)
  have b0: "boids c7_state ! 0 =
      \<lparr>boid_id = 1, playerId = 1, pos = Vec2 (- 5) 4100, vel = Vec2 2 4\<rparr>"
    and b1: "boids c7_state ! Suc 0 =
      \<lparr>boid_id = 2, playerId = 1, pos = Vec2 1200 (- 1), vel = Vec2 3 (- 3)\<rparr>"
    by (simp_all add: c7_state_def)
  from clamp_step_bounds_and_frame [of c7_state]
  have a: "\<forall>i < 2.
      let b = boids c7_state ! i; b' = boids (clampPositions c7_state) ! i
      in 0 \<le> vec_x (pos b') \<and> vec_x (pos b') \<le> MAP_WIDTH \<and>
         0 \<le> vec_y (pos b') \<and> vec_y (pos b') \<le> MAP_HEIGHT \<and>
         (vec_x (pos b) < 0 \<longrightarrow>
            vec_x (pos b') = 0 \<and> vec_x (vel b') = vec_x (vel b) * (- (1 / 2))) \<and>
         (vec_x (pos b) > MAP_WIDTH \<longrightarrow>
            vec_x (pos b') = MAP_WIDTH \<and> vec_x (vel b') = vec_x (vel b) * (- (1 / 2))) \<and>
         (0 \<le> vec_x (pos b) \<and> vec_x (pos b) \<le> MAP_WIDTH \<longrightarrow>
            vec_x (pos b') = vec_x (pos b) \<and> vec_x (vel b') = vec_x (vel b)) \<and>
         (vec_y (pos b) < 0 \<longrightarrow>
            vec_y (pos b') = 0 \<and> vec_y (vel b') = vec_y (vel b) * (- (1 / 2))) \<and>
         (vec_y (pos b) > MAP_HEIGHT \<longrightarrow>
            vec_y (pos b') = MAP_HEIGHT \<and> vec_y (vel b') = vec_y (vel b) * (- (1 / 2))) \<and>
         (0 \<le> vec_y (pos b) \<and> vec_y (pos b) \<le> MAP_HEIGHT \<longrightarrow>
            vec_y (pos b') = vec_y (pos b) \<and> vec_y (vel b') = vec_y (vel b)) \<and>
         boid_id b' = boid_id b \<and> playerId b' = playerId b"
    unfolding l by blast
  from a [rule_format, of 0] a [rule_format, of "Suc 0"] show ?thesis
    by (simp add: b0 b1 Let_def MAP_WIDTH_def MAP_HEIGHT_def Vec2.expand)
qed

text \<open>
  Claim C3, as amended. While fewer than \<open>MAX_PICKUPS\<close> pickups are active, the
  pickup-spawn step adds one to the counter and, when the counter reaches the spawn
  interval, resets it to zero and stores exactly one new pickup. When the cap is
  reached the step returns before it touches the counter: the whole state, counter
  included, stays as it was.
\<close>

theorem spawnPickups_counter:
  "(length (filter pk_active (pickups s)) < MAX_PICKUPS \<longrightarrow>
      pickupSpawnAccum (spawnPickups s) =
        (if pickupSpawnAccum s + 1 < PICKUP_SPAWN_INTERVAL then pickupSpawnAccum s + 1 else 0) \<and>
      length (pickups (spawnPickups s)) =
        (if pickupSpawnAccum s + 1 < PICKUP_SPAWN_INTERVAL then length (pickups s)
         else length (pickups s) + 1)) \<and>
   (length (filter pk_active (pickups s)) \<ge> MAX_PICKUPS \<longrightarrow> spawnPickups s = s)"
  by (simp add: spawnPickups_def randomPosition_def Let_def split: prod.splits)

theorem spawnPickups_counter_witness:
  "length (filter pk_active (pickups (emptyEngine\<lparr>pickupSpawnAccum := 59\<rparr>))) < MAX_PICKUPS \<and>
   pickupSpawnAccum (spawnPickups (emptyEngine\<lparr>pickupSpawnAccum := 59\<rparr>)) = 0 \<and>
   length (pickups (spawnPickups (emptyEngine\<lparr>pickupSpawnAccum := 59\<rparr>))) = 1 \<and>
   length (filter pk_active (pickups c3_state)) \<ge> MAX_PICKUPS \<and>
   spawnPickups c3_state = c3_state"
proof -
  have h1: "length (filter pk_active (pickups (emptyEngine\<lparr>pickupSpawnAccum := 59\<rparr>))) < MAX_PICKUPS"
    by (simp add: emptyEngine_def MAX_PICKUPS_def)
  have h2: "length (filter pk_active (pickups c3_state)) \<ge> MAX_PICKUPS"
    by (simp add: c3_state_def emptyEngine_def MAX_PICKUPS_def)
  from spawnPickups_counter [of "emptyEngine\<lparr>pickupSpawnAccum := 59\<rparr>"] h1
    spawnPickups_counter [of c3_state] h2
  show ?thesis by (simp add: PICKUP_SPAWN_INTERVAL_def emptyEngine_def)
qed

theorem spawnPickups_capped_counterexample:
  "\<not> (pickupSpawnAccum (spawnPickups c3_state) =
        (if pickupSpawnAccum c3_state + 1 \<ge> PICKUP_SPAWN_INTERVAL then 0
         else pickupSpawnAccum c3_state + 1))"
  by (simp add: spawnPickups_def c3_state_def emptyEngine_def Let_def MAX_PICKUPS_def
        PICKUP_SPAWN_INTERVAL_def)

section \<open>Every public operation preserves the invariant\<close>

lemma randomPosition_frame [simp]:
  "players (snd (randomPosition s)) = players s"
  "boids (snd (randomPosition s)) = boids s"
  "resources (snd (randomPosition s)) = resources s"
  "pickups (snd (randomPosition s)) = pickups s"
  "quadTree (snd (randomPosition s)) = quadTree s"
  by (simp_all add: randomPosition_def split: prod.splits)

lemma spawnResources_frame [simp]:
  "players (spawnResources s) = players s"
  "boids (spawnResources s) = boids s"
  by (simp_all add: spawnResources_def randomPosition_def Let_def split: prod.splits)

lemma spawnPickups_frame [simp]:
  "players (spawnPickups s) = players s"
  "boids (spawnPickups s) = boids s"
  by (simp_all add: spawnPickups_def randomPosition_def Let_def split: prod.splits)

lemma spawnResourcesWhile_frame [simp]:
  "players (spawnResourcesWhile s) = players s \<and> boids (spawnResourcesWhile s) = boids s"
proof (induction s rule: spawnResourcesWhile.induct)
  case (1 s)
  show ?case
  proof (cases "resourceSpawnAccum s \<ge> 1")
    case True
    with 1 show ?thesis by (subst (1 2) spawnResourcesWhile.simps) simp
  next
    case False
    then show ?thesis by (subst (1 2) spawnResourcesWhile.simps) simp
  qed
qed

lemma buildQuadTree_frame [simp]:
  "players (buildQuadTree s) = players s"
  "boids (buildQuadTree s) = boids s"
  by (simp_all add: buildQuadTree_def)

lemma prespawn_frame [simp]:
  "players (prespawn n s) = players s \<and> boids (prespawn n s) = boids s"
  by (induction n arbitrary: s) simp_all

lemma newEngine_inv: "eng_inv (newEngine seed)"
  by (simp add: eng_inv_def inv2_def newEngine_def)

lemma steerBoid_owner [simp]: "playerId (steerBoid player acc bs boid) = playerId boid"
  by (simp add: steerBoid_def Let_def)

lemma map_owner_update:
  "playerId b' = playerId (bs ! i) \<Longrightarrow> map playerId (bs[i := b']) = map playerId bs"
  by (metis list_update_id map_update)

lemma applyRulesBoid_owners:
  "applyRulesBoid ps qt i bs = Some bs' \<Longrightarrow> map playerId bs' = map playerId bs"
  by (auto simp: applyRulesBoid_def Let_def map_owner_update split: option.splits)


lemma applyRulesLoop_owners:
  "applyRulesLoop ps qt is bs = Some bs' \<Longrightarrow> map playerId bs' = map playerId bs"
proof (induction "is" arbitrary: bs)
  case Nil
  then show ?case by simp
next
  case (Cons i "is")
  from Cons.prems obtain bs1 where a: "applyRulesBoid ps qt i bs = Some bs1"
    and b: "applyRulesLoop ps qt is bs1 = Some bs'"
    by (auto split: option.splits)
  from Cons.IH [OF b] applyRulesBoid_owners [OF a] show ?case by simp
qed

lemma inv2_owners_cong:
  assumes "map playerId bs' = map playerId bs"
  shows "inv2 ps bs' = inv2 ps bs"
proof -
  from assms have "set (map playerId bs') = set (map playerId bs)" by simp
  then have "playerId ` set bs' = playerId ` set bs" by (simp only: set_map)
  then show ?thesis by (simp add: inv2_def)
qed

lemma applyBoidRules_inv:
  assumes "applyBoidRules s = Some s'" "eng_inv s"
  shows "eng_inv s'"
proof -
  from assms(1) obtain bs where a: "applyRulesLoop (players s) (quadTree s) [0..<length (boids s)] (boids s) = Some bs"
    and b: "s' = s\<lparr>boids := bs\<rparr>"
    by (auto simp: applyBoidRules_def split: option.splits)
  from inv2_owners_cong [OF applyRulesLoop_owners [OF a], of "players s"] assms(2) b
  show ?thesis by (simp add: eng_inv_def)
qed

lemma clampBoid_owner [simp]: "playerId (clampBoid b) = playerId b"
  by (simp add: clampBoid_def Let_def)

lemma clampPositions_inv: "eng_inv s \<Longrightarrow> eng_inv (clampPositions s)"
proof -
  have "map playerId (map clampBoid (boids s)) = map playerId (boids s)" by simp
  then have "inv2 (players s) (map clampBoid (boids s)) = inv2 (players s) (boids s)"
    by (rule inv2_owners_cong)
  then show "eng_inv s \<Longrightarrow> eng_inv (clampPositions s)"
    by (simp add: eng_inv_def clampPositions_def)
qed

lemma inv2_append_owned:
  "inv2 ps bs \<Longrightarrow> pid \<in> dom ps \<Longrightarrow> playerId b = pid \<Longrightarrow> inv2 ps (bs @ [b])"
  by (auto simp: inv2_def)

lemma inv2_subset: "inv2 ps bs \<Longrightarrow> set bs' \<subseteq> set bs \<Longrightarrow> inv2 ps bs'"
  by (auto simp: inv2_def)

lemma inv2_update:
  "inv2 ps bs \<Longrightarrow> player_id p = k \<Longrightarrow> 0 \<le> boostFuel p \<Longrightarrow> boostFuel p \<le> 1 \<Longrightarrow>
   inv2 (ps(k \<mapsto> p)) bs"
  by (auto simp: inv2_def)

lemma inv2_lookup:
  "inv2 ps bs \<Longrightarrow> ps k = Some p \<Longrightarrow> player_id p = k \<and> 0 \<le> boostFuel p \<and> boostFuel p \<le> 1"
  by (simp add: inv2_def)


lemma consumeResource_inv:
  assumes "eng_inv s" "players s (playerId b) = Some pl"
  shows "eng_inv (snd (consumeResource res b pl s))"
proof -
  from inv2_lookup [OF assms(1) [unfolded eng_inv_def] assms(2)]
  have pl: "player_id pl = playerId b" "0 \<le> boostFuel pl" "boostFuel pl \<le> 1" by simp_all
  let ?player = "pl\<lparr>score := score pl + res_value res,
                      mutations := applyMutation (res_type res)
                                     (2 / 100 * real_of_int (res_value res)) (mutations pl)\<rparr>"
  have i1: "inv2 ((players s)(playerId b \<mapsto> ?player)) (boids s)"
    using assms(1) pl by (intro inv2_update) (simp_all add: eng_inv_def)
  have i2: "inv2 ((players s)(playerId b \<mapsto> ?player))
              (boids s @ [\<lparr>boid_id = nextBoidId s, playerId = playerId b, pos = pos b, vel = Vec2 0 0\<rparr>])"
    by (rule inv2_append_owned [OF i1, of "playerId b"]) simp_all
  show ?thesis
    using i1 i2 pl by (simp add: consumeResource_def Let_def eng_inv_def)
qed

lemma resourceCandidates_inv:
  "resourceCandidates res nes s = Some (res', s') \<Longrightarrow> eng_inv s \<Longrightarrow> eng_inv s'"
proof (induction nes)
  case Nil
  then show ?case by simp
next
  case (Cons ne nes)
  then show ?case
    using consumeResource_inv [of s "boids s ! boidIndex ne" _ res]
    by (auto simp: Let_def split: if_splits option.splits)
qed

lemma collectResourcesLoop_inv:
  "collectResourcesLoop rs s = Some (rs', s') \<Longrightarrow> eng_inv s \<Longrightarrow> eng_inv s'"
proof (induction rs arbitrary: s rs')
  case Nil
  then show ?case by simp
next
  case (Cons res rest)
  show ?case
  proof (cases "res_active res")
    case False
    with Cons.prems obtain rs1 where "collectResourcesLoop rest s = Some (rs1, s')"
      by (auto split: option.splits)
    with Cons.IH Cons.prems(2) show ?thesis by blast
  next
    case True
    with Cons.prems obtain r1 s1 rs1 where
      a: "resourceCandidates res (qt_query (resourceQueryRect res) (quadTree s) []) s = Some (r1, s1)"
      and b: "collectResourcesLoop rest s1 = Some (rs1, s')"
      by (auto split: option.splits)
    from resourceCandidates_inv [OF a Cons.prems(2)] Cons.IH [OF b] show ?thesis by blast
  qed
qed

lemma collectResources_inv: "collectResources s = Some s' \<Longrightarrow> eng_inv s \<Longrightarrow> eng_inv s'"
  by (auto simp: collectResources_def eng_inv_def split: option.splits
           dest!: collectResourcesLoop_inv)

lemma massSpawnLoop_frame [simp]: "players (massSpawnLoop pid bpos n s) = players s"
  by (induction n arbitrary: s) (simp_all split: prod.splits)

lemma eng_inv_push:
  "eng_inv s \<Longrightarrow> pid \<in> dom (players s) \<Longrightarrow> playerId b = pid \<Longrightarrow>
   eng_inv (s\<lparr>boids := boids s @ [b], nextBoidId := nb, rng := g\<rparr>)"
  by (simp add: eng_inv_def inv2_append_owned)

lemma massSpawnLoop_inv:
  "eng_inv s \<Longrightarrow> pid \<in> dom (players s) \<Longrightarrow> eng_inv (massSpawnLoop pid bpos n s)"
proof (induction n arbitrary: s)
  case 0
  then show ?case by simp
next
  case (Suc n)
  obtain dx g1 where a: "uniform_real (- 20) 20 (rng s) = (dx, g1)" by (cases "uniform_real (- 20) 20 (rng s)")
  obtain dy g2 where b: "uniform_real (- 20) 20 g1 = (dy, g2)" by (cases "uniform_real (- 20) 20 g1")
  let ?s = "s\<lparr>boids := boids s @
                 [\<lparr>boid_id = nextBoidId s, playerId = pid,
                   pos = Vec2 (vec_x bpos + dx) (vec_y bpos + dy), vel = Vec2 0 0\<rparr>],
             nextBoidId := nextBoidId s + 1, rng := g2\<rparr>"
  have "eng_inv ?s" using Suc.prems by (intro eng_inv_push) simp_all
  moreover have "pid \<in> dom (players ?s)" using Suc.prems(2) by simp
  ultimately have "eng_inv (massSpawnLoop pid bpos n ?s)" by (rule Suc.IH)
  then show ?case by (simp add: a b)
qed

lemma scatterBoid_owner [simp]: "playerId (scatterBoid pid ppos bb) = playerId bb"
  by (simp add: scatterBoid_def Let_def)

lemma set_erase_at: "set (erase_at i xs) \<subseteq> set xs"
  by (auto simp: erase_at_def dest: in_set_takeD in_set_dropD)

lemma set_mineLoop: "set (mineLoop pid n killed bs) \<subseteq> set bs"
proof (induction n arbitrary: killed bs)
  case 0
  then show ?case by simp
next
  case (Suc n)
  have "set (mineLoop pid n (killed + 1) (erase_at n bs)) \<subseteq> set bs"
    using Suc.IH [of "killed + 1" "erase_at n bs"] set_erase_at [of n bs] by blast
  with Suc.IH [of killed bs] show ?case by simp
qed

lemma applyPickup_inv:
  assumes "eng_inv s" "players s (playerId b) = Some player"
  shows "eng_inv (applyPickup pickup b player s)"
proof -
  from inv2_lookup [OF assms(1) [unfolded eng_inv_def] assms(2)]
  have pl: "player_id player = playerId b" "0 \<le> boostFuel player" "boostFuel player \<le> 1"
    by simp_all
  have dom: "playerId b \<in> dom (players s)" using assms(2) by auto
  have upd: "\<And>p. player_id p = playerId b \<Longrightarrow> 0 \<le> boostFuel p \<Longrightarrow> boostFuel p \<le> 1 \<Longrightarrow>
               eng_inv (s\<lparr>players := (players s)(playerId b \<mapsto> p)\<rparr>)"
    using assms(1) by (simp add: eng_inv_def inv2_update)
  have sc: "eng_inv (s\<lparr>boids := map (scatterBoid (player_id player) (pk_pos pickup)) (boids s)\<rparr>)"
  proof -
    have "map playerId (map (scatterBoid (player_id player) (pk_pos pickup)) (boids s))
            = map playerId (boids s)" by simp
    from inv2_owners_cong [OF this, of "players s"] assms(1) show ?thesis
      by (simp add: eng_inv_def)
  qed
  have mi: "eng_inv (s\<lparr>boids := mineLoop (player_id player) (length (boids s)) 0 (boids s)\<rparr>)"
    using assms(1) inv2_subset [OF _ set_mineLoop] by (simp add: eng_inv_def)
  have ms: "\<And>n. eng_inv (massSpawnLoop (player_id player) (pos b) n s)"
    using assms(1) dom pl(1) by (simp add: massSpawnLoop_inv)
  show ?thesis
    unfolding applyPickup_def Let_def
    using upd pl sc mi ms assms(1) by simp
qed

lemma pickupCandidates_inv:
  "pickupCandidates pickup nes s = Some (pickup', s') \<Longrightarrow> eng_inv s \<Longrightarrow> eng_inv s'"
proof (induction nes)
  case Nil
  then show ?case by simp
next
  case (Cons ne nes)
  then show ?case
    using applyPickup_inv [of s "boids s ! boidIndex ne" _ pickup]
    by (auto simp: Let_def split: if_splits option.splits)
qed

lemma collectPickupsLoop_inv:
  "collectPickupsLoop ps s = Some (ps', s') \<Longrightarrow> eng_inv s \<Longrightarrow> eng_inv s'"
proof (induction ps arbitrary: s ps')
  case Nil
  then show ?case by simp
next
  case (Cons pickup rest)
  show ?case
  proof (cases "pk_active pickup")
    case False
    with Cons.prems obtain ps1 where "collectPickupsLoop rest s = Some (ps1, s')"
      by (auto split: option.splits)
    with Cons.IH Cons.prems(2) show ?thesis by blast
  next
    case True
    with Cons.prems obtain p1 s1 ps1 where
      a: "pickupCandidates pickup (qt_query (pickupQueryRect pickup) (quadTree s) []) s = Some (p1, s1)"
      and b: "collectPickupsLoop rest s1 = Some (ps1, s')"
      by (auto split: option.splits)
    from pickupCandidates_inv [OF a Cons.prems(2)] Cons.IH [OF b] show ?thesis by blast
  qed
qed

lemma collectPickups_inv: "collectPickups s = Some s' \<Longrightarrow> eng_inv s \<Longrightarrow> eng_inv s'"
  by (auto simp: collectPickups_def eng_inv_def split: option.splits
           dest!: collectPickupsLoop_inv)

lemma set_removeBackToFront: "set (removeBackToFront is bs) \<subseteq> set bs"
proof (induction "is" arbitrary: bs)
  case Nil
  then show ?case by simp
next
  case (Cons i "is")
  show ?case
    using Cons.IH [of "erase_at i bs"] Cons.IH [of bs] set_erase_at [of i bs]
    by auto
qed

lemma handleCombat_inv: "handleCombat s = Some s' \<Longrightarrow> eng_inv s \<Longrightarrow> eng_inv s'"
  by (auto simp: handleCombat_def eng_inv_def split: option.splits prod.splits
           intro: inv2_subset [OF _ set_removeBackToFront])

lemma boostUpdate_keeps:
  "player_id (boostUpdate p) = player_id p"
  by (simp add: boostUpdate_def Let_def)

lemma boostUpdate_fuel:
  "0 \<le> boostFuel p \<Longrightarrow> boostFuel p \<le> 1 \<Longrightarrow>
   0 \<le> boostFuel (boostUpdate p) \<and> boostFuel (boostUpdate p) \<le> 1"
  by (simp add: boostUpdate_def Let_def BOOST_DRAIN_RATE_def BOOST_RECHARGE_RATE_def)

lemma effectsUpdate_keeps:
  "player_id (effectsUpdate p) = player_id p \<and> boostFuel (effectsUpdate p) = boostFuel p"
  by (simp add: effectsUpdate_def Let_def)

lemma checkAlive_keeps:
  "player_id (checkAlive bs k p) = player_id p \<and> boostFuel (checkAlive bs k p) = boostFuel p"
  by (simp add: checkAlive_def Let_def)

lemma forEachPlayer_inv:
  assumes "eng_inv s"
    and "\<And>k p. player_id (f k p) = player_id p"
    and "\<And>k p. 0 \<le> boostFuel p \<Longrightarrow> boostFuel p \<le> 1 \<Longrightarrow>
                 0 \<le> boostFuel (f k p) \<and> boostFuel (f k p) \<le> 1"
  shows "eng_inv (forEachPlayer f s)"
proof -
  have d: "dom (\<lambda>pid. map_option (f pid) (players s pid)) = dom (players s)"
    by (auto simp: dom_def)
  show ?thesis
    using assms unfolding eng_inv_def inv2_def forEachPlayer_def
    by (auto simp: d)
qed

lemma spawn_phase_inv:
  "eng_inv s \<Longrightarrow> eng_inv (buildQuadTree (spawnPickups (spawnResourcesWhile
       (s\<lparr>resourceSpawnAccum := a\<rparr>))))"
  by (simp add: eng_inv_def)

lemma buildQuadTree_inv: "eng_inv s \<Longrightarrow> eng_inv (buildQuadTree s)"
  by (simp add: eng_inv_def)

lemma tick_inv:
  assumes "tick s = Some s'" "eng_inv s"
  shows "eng_inv s'"
proof -
  let ?s0 = "forEachPlayer (\<lambda>pid. boostUpdate) s"
  let ?s1 = "tickPlayerEffects ?s0"
  let ?s4 = "buildQuadTree (spawnPickups (spawnResourcesWhile
               (?s1\<lparr>resourceSpawnAccum := resourceSpawnAccum ?s1 + RESOURCE_SPAWN_RATE\<rparr>)))"
  from assms(1) obtain s5 s8 s9 s10 where
    a: "applyBoidRules ?s4 = Some s5"
    and b: "collectResources (buildQuadTree (clampPositions s5)) = Some s8"
    and c: "collectPickups s8 = Some s9"
    and d: "handleCombat s9 = Some s10"
    and e: "s' = forEachPlayer (checkAlive (boids s10)) s10"
    by (auto simp: tick_def Let_def split: option.splits)
  have "eng_inv ?s0"
    using assms(2) by (rule forEachPlayer_inv) (simp_all add: boostUpdate_keeps boostUpdate_fuel)
  then have "eng_inv ?s1"
    unfolding tickPlayerEffects_def
    by (rule forEachPlayer_inv) (simp_all add: effectsUpdate_keeps)
  then have "eng_inv ?s4" by (rule spawn_phase_inv)
  then have "eng_inv s5" using a applyBoidRules_inv by blast
  then have "eng_inv (buildQuadTree (clampPositions s5))"
    by (intro buildQuadTree_inv clampPositions_inv)
  then have "eng_inv s8" using b collectResources_inv by blast
  then have "eng_inv s9" using c collectPickups_inv by blast
  then have "eng_inv s10" using d handleCombat_inv by blast
  then show ?thesis
    unfolding e by (rule forEachPlayer_inv) (simp_all add: checkAlive_keeps)
qed

lemma spawnBoidsLoop_inv:
  "eng_inv s \<Longrightarrow> pid \<in> dom (players s) \<Longrightarrow> eng_inv (spawnBoidsLoop pid center n s)"
proof (induction n arbitrary: s)
  case 0
  then show ?case by simp
next
  case (Suc n)
  obtain dx g1 where a: "uniform_real (- 30) 30 (rng s) = (dx, g1)" by (cases "uniform_real (- 30) 30 (rng s)")
  obtain dy g2 where b: "uniform_real (- 30) 30 g1 = (dy, g2)" by (cases "uniform_real (- 30) 30 g1")
  obtain vx g3 where c: "uniform_real (- 1) 1 g2 = (vx, g3)" by (cases "uniform_real (- 1) 1 g2")
  obtain vy g4 where d: "uniform_real (- 1) 1 g3 = (vy, g4)" by (cases "uniform_real (- 1) 1 g3")
  let ?s = "s\<lparr>boids := boids s @
                 [\<lparr>boid_id = nextBoidId s, playerId = pid,
                   pos = Vec2 (vec_x center + dx) (vec_y center + dy), vel = Vec2 vx vy\<rparr>],
             nextBoidId := nextBoidId s + 1, rng := g4\<rparr>"
  have "eng_inv ?s" using Suc.prems by (intro eng_inv_push) simp_all
  moreover have "pid \<in> dom (players ?s)" using Suc.prems(2) by simp
  ultimately have "eng_inv (spawnBoidsLoop pid center n ?s)" by (rule Suc.IH)
  then show ?case by (simp add: a b c d)
qed

lemma addPlayer_inv: "eng_inv s \<Longrightarrow> eng_inv (snd (addPlayer s))"
proof -
  assume i: "eng_inv s"
  let ?pid = "nextPlayerId s"
  let ?s1 = "s\<lparr>nextPlayerId := ?pid + 1, players := (players s)(?pid \<mapsto> newPlayer ?pid)\<rparr>"
  have "eng_inv ?s1"
    using i by (simp add: eng_inv_def inv2_update newPlayer_def)
  then have "eng_inv (snd (randomPosition ?s1))" by (simp add: eng_inv_def)
  moreover have "?pid \<in> dom (players (snd (randomPosition ?s1)))" by simp
  ultimately have "eng_inv (spawnBoidsLoop ?pid (fst (randomPosition ?s1)) INITIAL_BOIDS
                     (snd (randomPosition ?s1)))"
    by (rule spawnBoidsLoop_inv)
  then show ?thesis
    by (simp add: addPlayer_def Let_def spawnBoidsForPlayer_def case_prod_beta)
qed

lemma removePlayer_inv: "eng_inv s \<Longrightarrow> eng_inv (removePlayer pid s)"
  by (auto simp: eng_inv_def inv2_def removePlayer_def)

lemma setPlayerCursor_inv: "eng_inv s \<Longrightarrow> eng_inv (setPlayerCursor pid cx cy s)"
  by (auto simp: eng_inv_def inv2_def setPlayerCursor_def split: option.splits)

lemma setPlayerBoost_inv: "eng_inv s \<Longrightarrow> eng_inv (setPlayerBoost pid a s)"
  by (auto simp: eng_inv_def inv2_def setPlayerBoost_def split: option.splits)

lemma api_step_inv: "api_step c s = Some s' \<Longrightarrow> eng_inv s \<Longrightarrow> eng_inv s'"
  by (cases c)
     (auto simp: addPlayer_inv removePlayer_inv setPlayerCursor_inv setPlayerBoost_inv
           dest: tick_inv)

lemma run_inv: "run cs s = Some s' \<Longrightarrow> eng_inv s \<Longrightarrow> eng_inv s'"
proof (induction cs arbitrary: s)
  case Nil
  then show ?case by simp
next
  case (Cons c cs)
  from Cons.prems(1) obtain s1 where a: "api_step c s = Some s1" and b: "run cs s1 = Some s'"
    by (auto split: option.splits)
  from Cons.IH [OF b api_step_inv [OF a Cons.prems(2)]] show ?case .
qed

lemma reachable_inv: "run cs (newEngine seed) = Some s \<Longrightarrow> eng_inv s"
  using run_inv newEngine_inv by blast

lemma newEngine_empty: "boids (newEngine seed) = [] \<and> players (newEngine seed) = Map.empty"
  by (simp add: newEngine_def)

lemma addPlayer_players:
  "players (snd (addPlayer s)) = (players s)(nextPlayerId s \<mapsto> newPlayer (nextPlayerId s))"
proof -
  have "\<And>pid c n s. players (spawnBoidsLoop pid c n s) = players s"
  proof -
    fix pid c n s show "players (spawnBoidsLoop pid c n s) = players s"
      by (induction n arbitrary: s) (simp_all split: prod.splits)
  qed
  then show ?thesis
    by (simp add: addPlayer_def Let_def spawnBoidsForPlayer_def case_prod_beta)
qed

lemma spawnBoidsLoop_length:
  "length (boids (spawnBoidsLoop pid c n s)) = length (boids s) + n"
  by (induction n arbitrary: s) (simp_all split: prod.splits)

lemma addPlayer_boids_nonempty: "boids (snd (addPlayer s)) \<noteq> []"
proof -
  have "length (boids (snd (addPlayer s))) = length (boids s) + INITIAL_BOIDS"
    by (simp add: addPlayer_def Let_def spawnBoidsForPlayer_def case_prod_beta
          spawnBoidsLoop_length)
  then show ?thesis by (auto simp: INITIAL_BOIDS_def)
qed

section \<open>Combat resolution\<close>

lemma strict_sorted_remdups_adj:
  "sorted (xs :: nat list) \<Longrightarrow> sorted_wrt (<) (remdups_adj xs)"
proof (induction xs rule: remdups_adj.induct)
  case (3 x y xs)
  show ?case
  proof (cases "x = y")
    case True
    with 3 show ?thesis by simp
  next
    case False
    from "3.prems" have s: "sorted (y # xs)" by simp
    from "3.prems" False have xy: "x < y" by auto
    from s have "\<forall>z \<in> set (y # xs). y \<le> z" by auto
    with xy have "\<forall>z \<in> set (y # xs). x < z" by auto
    then have "\<forall>z \<in> set (remdups_adj (y # xs)). x < z" by (simp only: remdups_adj_set)
    moreover have "sorted_wrt (<) (remdups_adj (y # xs))" using "3.IH"(2) [OF False s] .
    ultimately show ?thesis using False by simp
  qed
qed simp_all

lemma marked_strictly_descending:
  "sorted_wrt (>) (rev (remdups_adj (sort (toRemove :: nat list))))"
  using strict_sorted_remdups_adj [of "sort toRemove"]
  by (simp add: sorted_wrt_rev)

lemma erase_at_filter:
  assumes "i < length xs" "\<not> P (xs ! i)"
  shows "filter P (erase_at i xs) = filter P xs"
proof -
  have "xs = take i xs @ xs ! i # drop (Suc i) xs"
    using assms(1) by (rule id_take_nth_drop)
  then have "filter P xs = filter P (take i xs) @ filter P (xs ! i # drop (Suc i) xs)"
    by (metis filter_append)
  with assms(2) show ?thesis by (simp add: erase_at_def)
qed

lemma erase_at_nth: "j < i \<Longrightarrow> i < length xs \<Longrightarrow> erase_at i xs ! j = xs ! j"
  by (simp add: erase_at_def nth_append)

lemma length_erase_at: "i < length xs \<Longrightarrow> length (erase_at i xs) = length xs - 1"
  by (simp add: erase_at_def)

lemma removeBackToFront_filter:
  "sorted_wrt (>) ds \<Longrightarrow> (\<forall>d \<in> set ds. d < length bs \<longrightarrow> \<not> P (bs ! d)) \<Longrightarrow>
   filter P (removeBackToFront ds bs) = filter P bs"
proof (induction ds arbitrary: bs)
  case Nil
  then show ?case by simp
next
  case (Cons d ds)
  show ?case
  proof (cases "d < length bs")
    case False
    with Cons show ?thesis by simp
  next
    case True
    have lt: "\<forall>d' \<in> set ds. d' < d" using Cons.prems(1) by auto
    have "\<forall>d' \<in> set ds. d' < length (erase_at d bs) \<longrightarrow> \<not> P (erase_at d bs ! d')"
    proof (intro ballI impI)
      fix d' assume d': "d' \<in> set ds" "d' < length (erase_at d bs)"
      with lt have "d' < d" by blast
      with True have "erase_at d bs ! d' = bs ! d'" and "d' < length bs"
        by (simp_all add: erase_at_nth)
      with Cons.prems(2) d'(1) show "\<not> P (erase_at d bs ! d')" by simp
    qed
    moreover have "sorted_wrt (>) ds" using Cons.prems(1) by simp
    ultimately have "filter P (removeBackToFront ds (erase_at d bs)) = filter P (erase_at d bs)"
      using Cons.IH by blast
    moreover have "filter P (erase_at d bs) = filter P bs"
      using True Cons.prems(2) by (intro erase_at_filter) simp_all
    ultimately show ?thesis using True by simp
  qed
qed

lemma combatPair_marks:
  assumes "marks_ok ps bs toRemove" "i < length bs" "j < length bs"
    and "combatPair ps bs i j (toRemove, cnt) = (brk, toRemove', cnt')"
  shows "marks_ok ps bs toRemove'"
  using assms by (auto simp: combatPair_def marks_ok_def Let_def split: if_splits)

lemma combatNearby_marks:
  "combatNearby ps bs i nes st = Some st' \<Longrightarrow> i < length bs \<Longrightarrow>
   marks_ok ps bs (fst st) \<Longrightarrow> marks_ok ps bs (fst st')"
proof (induction nes arbitrary: st)
  case Nil
  then show ?case by simp
next
  case (Cons ne nes)
  show ?case
  proof (cases "boidIndex ne \<noteq> i \<and> boidIndex ne < length bs \<and>
                playerId (bs ! boidIndex ne) \<noteq> playerId (bs ! i) \<and>
                lengthSq (vsub (pos (bs ! i)) (pos (bs ! boidIndex ne)))
                  < COMBAT_ABSORB_RADIUS * COMBAT_ABSORB_RADIUS")
    case False
    with Cons.prems have "combatNearby ps bs i nes st = Some st'"
      by (auto simp: Let_def split: if_splits)
    with Cons.IH Cons.prems show ?thesis by blast
  next
    case True
    obtain brk tr cnt where p: "combatPair ps bs i (boidIndex ne) st = (brk, tr, cnt)"
      by (cases "combatPair ps bs i (boidIndex ne) st") auto
    have m: "marks_ok ps bs tr"
      using combatPair_marks [of ps bs "fst st" i "boidIndex ne" "snd st" brk tr cnt]
        Cons.prems True p by simp
    show ?thesis
    proof (cases brk)
      case True
      with Cons.prems \<open>boidIndex ne \<noteq> i \<and> _\<close> p have "st' = (tr, cnt)"
        by (simp add: Let_def)
      with m show ?thesis by simp
    next
      case False
      with Cons.prems \<open>boidIndex ne \<noteq> i \<and> _\<close> p
      have "combatNearby ps bs i nes (tr, cnt) = Some st'"
        by (simp add: Let_def)
      from Cons.IH [OF this Cons.prems(2)] m show ?thesis by simp
    qed
  qed
qed

lemma combatScan_marks:
  "combatScan ps qt bs is st = Some st' \<Longrightarrow> list_all (\<lambda>i. i < length bs) is \<Longrightarrow>
   marks_ok ps bs (fst st) \<Longrightarrow> marks_ok ps bs (fst st')"
proof (induction "is" arbitrary: st)
  case Nil
  then show ?case by simp
next
  case (Cons i "is")
  from Cons.prems(1) obtain st1 where
    a: "combatNearby ps bs i (qt_query (combatQueryRect (bs ! i)) qt []) st = Some st1"
    and b: "combatScan ps qt bs is st1 = Some st'"
    by (auto split: option.splits)
  from combatNearby_marks [OF a] Cons.prems have "marks_ok ps bs (fst st1)" by simp
  from Cons.IH [OF b _ this] Cons.prems(2) show ?case by simp
qed

lemma handleCombat_shielded:
  assumes "handleCombat s = Some s'"
  shows "filter (\<lambda>b. shielded (players s) (playerId b)) (boids s') =
         filter (\<lambda>b. shielded (players s) (playerId b)) (boids s) \<and> players s' = players s"
proof -
  from assms obtain toRemove cnt where
    a: "combatScan (players s) (quadTree s) (boids s) [0..<length (boids s)]
          ([], countBoids (boids s) (\<lambda>pid. 0)) = Some (toRemove, cnt)"
    and b: "s' = s\<lparr>boids := removeBackToFront (rev (remdups_adj (sort toRemove))) (boids s)\<rparr>"
    by (auto simp: handleCombat_def split: option.splits prod.splits)
  have "list_all (\<lambda>i. i < length (boids s)) [0..<length (boids s)]"
    by (simp add: list_all_iff)
  from combatScan_marks [OF a this] have m: "marks_ok (players s) (boids s) toRemove"
    by (simp add: marks_ok_def)
  have "\<forall>d \<in> set (rev (remdups_adj (sort toRemove))). d < length (boids s) \<longrightarrow>
          \<not> shielded (players s) (playerId (boids s ! d))"
    using m by (simp add: marks_ok_def list_all_iff)
  from removeBackToFront_filter [OF marked_strictly_descending this] b
  show ?thesis by simp
qed

lemma qt_query_subset: "set (qt_query rg t found) \<subseteq> set found \<union> set_mset (entries t)"
proof (induction t arbitrary: found)
  case (Leaf b l objs)
  show ?case by auto
next
  case (Div b l objs c0 c1 c2 c3)
  let ?f0 = "found @ filter (\<lambda>obj. contains rg (ent_x obj) (ent_y obj)) objs"
  let ?f1 = "qt_query rg c0 ?f0"
  let ?f2 = "qt_query rg c1 ?f1"
  let ?f3 = "qt_query rg c2 ?f2"
  have 0: "set ?f0 \<subseteq> set found \<union> set objs" by auto
  have 1: "set ?f1 \<subseteq> set ?f0 \<union> set_mset (entries c0)" by (rule Div.IH)
  have 2: "set ?f2 \<subseteq> set ?f1 \<union> set_mset (entries c1)" by (rule Div.IH)
  have 3: "set ?f3 \<subseteq> set ?f2 \<union> set_mset (entries c2)" by (rule Div.IH)
  have 4: "set (qt_query rg c3 ?f3) \<subseteq> set ?f3 \<union> set_mset (entries c3)" by (rule Div.IH)
  have "set (qt_query rg c3 ?f3) \<subseteq> set found \<union> set_mset (entries (Div b l objs c0 c1 c2 c3))"
    using 0 1 2 3 4 by (simp only: entries.simps set_mset_union set_mset_mset) blast
  then show ?case by simp
qed

lemma combatNearby_total:
  "list_all (\<lambda>ne. boidIndex ne < length bs) nes \<Longrightarrow> combatNearby ps bs i nes st \<noteq> None"
proof (induction nes arbitrary: st)
  case Nil
  then show ?case by simp
next
  case (Cons ne nes)
  then have r: "\<And>st. combatNearby ps bs i nes st \<noteq> None" and "boidIndex ne < length bs"
    by simp_all
  then show ?case
    by (auto simp: Let_def split: prod.splits)
qed

lemma combatScan_total:
  assumes "\<forall>e \<in># entries qt. boidIndex e < length bs"
  shows "combatScan ps qt bs is st \<noteq> None"
proof (induction "is" arbitrary: st)
  case Nil
  then show ?case by simp
next
  case (Cons i "is")
  have "list_all (\<lambda>ne. boidIndex ne < length bs) (qt_query (combatQueryRect (bs ! i)) qt [])"
    using qt_query_subset [of "combatQueryRect (bs ! i)" qt "[]"] assms
    by (auto simp: list_all_iff)
  from combatNearby_total [OF this] obtain st1 where
    "combatNearby ps bs i (qt_query (combatQueryRect (bs ! i)) qt []) st = Some st1"
    by blast
  with Cons.IH [of st1] show ?case by simp
qed

lemma handleCombat_total:
  assumes "\<forall>e \<in># entries (quadTree s). boidIndex e < length (boids s)"
  shows "handleCombat s \<noteq> None"
  using combatScan_total [OF assms, of "players s" "[0..<length (boids s)]"
          "([], countBoids (boids s) (\<lambda>pid. 0))"]
  by (auto simp: handleCombat_def split: option.splits)





section \<open>When a tick runs to completion\<close>

lemma qt_insert_entries_subset:
  "set_mset (entries (qt_insert e t)) \<subseteq> insert e (set_mset (entries t))"
proof (induction e t rule: qt_insert.induct)
  case (1 e b l objs)
  then show ?case by (auto simp: subdivide_def)
next
  case (2 e b l objs c0 c1 c2 c3)
  then show ?case by auto
qed

lemma insert_all_entries_subset:
  "set_mset (entries (insert_all es t)) \<subseteq> set es \<union> set_mset (entries t)"
proof (induction es arbitrary: t)
  case Nil
  then show ?case by simp
next
  case (Cons e es)
  from Cons.IH [of "qt_insert e t"] qt_insert_entries_subset [of e t]
  show ?case by auto
qed

lemma buildQuadTree_in_range: "index_in_range (quadTree (buildQuadTree s)) (boids s)"
proof -
  have "set_mset (entries (quadTree (buildQuadTree s)))
          \<subseteq> set (map (boidEntry (boids s)) [0..<length (boids s)])"
    using insert_all_entries_subset
      [of "map (boidEntry (boids s)) [0..<length (boids s)]" "qt_clear (quadTree s)"]
    by (simp add: buildQuadTree_def qt_clear_def)
  then show ?thesis by (auto simp: index_in_range_def boidEntry_def)
qed

lemma query_in_range:
  "index_in_range qt bs \<Longrightarrow> list_all (\<lambda>ne. boidIndex ne < length bs) (qt_query rg qt [])"
  using qt_query_subset [of rg qt "[]"] by (auto simp: index_in_range_def list_all_iff)

lemma index_in_range_mono:
  "index_in_range qt bs \<Longrightarrow> length bs \<le> length bs' \<Longrightarrow> index_in_range qt bs'"
  by (auto simp: index_in_range_def)

lemma flockNeighbor_total:
  "boidIndex ne < length bs \<Longrightarrow> flockNeighbor mut i bs ne acc \<noteq> None"
  by (simp add: flockNeighbor_def Let_def)

lemma flockNeighbors_total:
  "list_all (\<lambda>ne. boidIndex ne < length bs) nes \<Longrightarrow> flockNeighbors mut i bs nes acc \<noteq> None"
proof (induction nes arbitrary: acc)
  case Nil
  then show ?case by simp
next
  case (Cons ne nes)
  then have "boidIndex ne < length bs" by simp
  from flockNeighbor_total [OF this] obtain acc' where
    "flockNeighbor mut i bs ne acc = Some acc'" by blast
  with Cons show ?case by simp
qed

lemma applyRulesBoid_total:
  assumes "index_in_range qt bs"
  shows "\<exists>bs'. applyRulesBoid ps qt i bs = Some bs' \<and> length bs' = length bs"
proof (cases "ps (playerId (bs ! i))")
  case None
  then show ?thesis by (simp add: applyRulesBoid_def)
next
  case (Some player)
  let ?effectiveCohesionRadius = "COHESION_RADIUS * cohesion (mutations player)"
  let ?queryR = "max (max (max SEPARATION_RADIUS ALIGNMENT_RADIUS) ?effectiveCohesionRadius)
                   (BOID_BASE_AGGRESSION * aggression (mutations player))"
  let ?rect = "Rect (vec_x (pos (bs ! i)) - ?queryR) (vec_y (pos (bs ! i)) - ?queryR)
                 (?queryR * 2) (?queryR * 2)"
  from flockNeighbors_total [OF query_in_range [OF assms, of ?rect]]
  obtain acc where "flockNeighbors (mutations player) i bs (qt_query ?rect qt []) initFlockAcc = Some acc"
    by blast
  with Some show ?thesis by (simp add: applyRulesBoid_def Let_def)
qed

lemma applyRulesLoop_total:
  "index_in_range qt bs \<Longrightarrow> applyRulesLoop ps qt is bs \<noteq> None"
proof (induction "is" arbitrary: bs)
  case Nil
  then show ?case by simp
next
  case (Cons i "is")
  from applyRulesBoid_total [OF Cons.prems, of ps i] obtain bs' where
    a: "applyRulesBoid ps qt i bs = Some bs'" and l: "length bs' = length bs" by blast
  from Cons.prems l have "index_in_range qt bs'" by (simp add: index_in_range_def)
  from Cons.IH [OF this] a show ?case by simp
qed

lemma applyBoidRules_total:
  "index_in_range (quadTree s) (boids s) \<Longrightarrow>
   \<exists>s'. applyBoidRules s = Some s' \<and> length (boids s') = length (boids s) \<and>
        pickups s' = pickups s"
proof -
  assume a: "index_in_range (quadTree s) (boids s)"
  from applyRulesLoop_total [OF a, of "players s" "[0..<length (boids s)]"]
  obtain bs where b: "applyRulesLoop (players s) (quadTree s) [0..<length (boids s)] (boids s) = Some bs"
    by blast
  have "\<And>ps qt is bs bs'. applyRulesLoop ps qt is bs = Some bs' \<Longrightarrow> length bs' = length bs"
    using applyRulesLoop_owners by (metis length_map)
  from this [OF b] b show ?thesis by (simp add: applyBoidRules_def)
qed

lemma consumeResource_grows:
  "quadTree (snd (consumeResource res b pl s)) = quadTree s \<and>
   pickups (snd (consumeResource res b pl s)) = pickups s \<and>
   length (boids s) \<le> length (boids (snd (consumeResource res b pl s)))"
  by (simp add: consumeResource_def Let_def)

lemma resourceCandidates_total:
  "list_all (\<lambda>ne. boidIndex ne < length (boids s)) nes \<Longrightarrow>
   \<exists>res' s'. resourceCandidates res nes s = Some (res', s') \<and> quadTree s' = quadTree s \<and>
     pickups s' = pickups s \<and> length (boids s) \<le> length (boids s')"
proof (induction nes)
  case Nil
  then show ?case by simp
next
  case (Cons ne nes)
  then have r: "boidIndex ne < length (boids s)"
    and ih: "\<exists>res' s'. resourceCandidates res nes s = Some (res', s') \<and> quadTree s' = quadTree s \<and>
     pickups s' = pickups s \<and> length (boids s) \<le> length (boids s')"
    by simp_all
  show ?case
  proof (cases "players s (playerId (boids s ! boidIndex ne))")
    case None
    with r ih show ?thesis by simp
  next
    case (Some pl)
    show ?thesis
    proof (cases "lengthSq (vsub (pos (boids s ! boidIndex ne)) (res_pos res))
                    < BOID_BASE_COLLECT_RANGE * collectRange (mutations pl) *
                      (BOID_BASE_COLLECT_RANGE * collectRange (mutations pl))")
      case False
      with r ih Some show ?thesis by (simp add: Let_def)
    next
      case True
      obtain res' s' where c: "consumeResource res (boids s ! boidIndex ne) pl s = (res', s')"
        by (cases "consumeResource res (boids s ! boidIndex ne) pl s")
      with consumeResource_grows [of res "boids s ! boidIndex ne" pl s]
      have "quadTree s' = quadTree s \<and> pickups s' = pickups s \<and>
            length (boids s) \<le> length (boids s')" by simp
      with r Some True c show ?thesis by (simp add: Let_def)
    qed
  qed
qed

lemma collectResourcesLoop_total:
  "index_in_range (quadTree s) (boids s) \<Longrightarrow>
   \<exists>rs' s'. collectResourcesLoop rs s = Some (rs', s') \<and> quadTree s' = quadTree s \<and>
     pickups s' = pickups s \<and> length (boids s) \<le> length (boids s')"
proof (induction rs arbitrary: s)
  case Nil
  then show ?case by simp
next
  case (Cons res rest)
  show ?case
  proof (cases "res_active res")
    case False
    with Cons.IH [OF Cons.prems] show ?thesis by auto
  next
    case True
    from resourceCandidates_total
      [OF query_in_range [OF Cons.prems, of "resourceQueryRect res"], of res]
    obtain res' s1 where
      a: "resourceCandidates res (qt_query (resourceQueryRect res) (quadTree s) []) s = Some (res', s1)"
      and q: "quadTree s1 = quadTree s" and p: "pickups s1 = pickups s"
      and l: "length (boids s) \<le> length (boids s1)"
      by blast
    from Cons.prems q l have "index_in_range (quadTree s1) (boids s1)"
      by (auto intro: index_in_range_mono)
    from Cons.IH [OF this] obtain rs' s' where
      b: "collectResourcesLoop rest s1 = Some (rs', s')" and q': "quadTree s' = quadTree s1"
      and p': "pickups s' = pickups s1" and l': "length (boids s1) \<le> length (boids s')"
      by blast
    from True a b q q' p p' l l' show ?thesis by simp
  qed
qed

lemma collectResources_total:
  "index_in_range (quadTree s) (boids s) \<Longrightarrow>
   \<exists>s'. collectResources s = Some s' \<and> index_in_range (quadTree s') (boids s') \<and>
     pickups s' = pickups s"
proof -
  assume a: "index_in_range (quadTree s) (boids s)"
  from collectResourcesLoop_total [OF a, of "resources s"] obtain rs' s' where
    b: "collectResourcesLoop (resources s) s = Some (rs', s')" and q: "quadTree s' = quadTree s"
    and p: "pickups s' = pickups s" and l: "length (boids s) \<le> length (boids s')"
    by blast
  from a q l have "index_in_range (quadTree s') (boids s')"
    by (auto intro: index_in_range_mono)
  with b p show ?thesis by (simp add: collectResources_def)
qed

lemma massSpawnLoop_grows:
  "quadTree (massSpawnLoop pid bpos n s) = quadTree s \<and>
   length (boids s) \<le> length (boids (massSpawnLoop pid bpos n s))"
proof (induction n arbitrary: s)
  case 0
  then show ?case by simp
next
  case (Suc n)
  obtain dx g1 where a: "uniform_real (- 20) 20 (rng s) = (dx, g1)" by (cases "uniform_real (- 20) 20 (rng s)")
  obtain dy g2 where b: "uniform_real (- 20) 20 g1 = (dy, g2)" by (cases "uniform_real (- 20) 20 g1")
  let ?s = "s\<lparr>boids := boids s @
                 [\<lparr>boid_id = nextBoidId s, playerId = pid,
                   pos = Vec2 (vec_x bpos + dx) (vec_y bpos + dy), vel = Vec2 0 0\<rparr>],
             nextBoidId := nextBoidId s + 1, rng := g2\<rparr>"
  from Suc.IH [of ?s] show ?case by (simp add: a b)
qed

lemma applyPickup_grows:
  assumes "pk_type pickup \<noteq> 7"
  shows "quadTree (applyPickup pickup b player s) = quadTree s \<and>
         length (boids s) \<le> length (boids (applyPickup pickup b player s))"
  using assms massSpawnLoop_grows [of "player_id player" "pos b" _ s]
  by (simp add: applyPickup_def Let_def)

lemma pickupCandidates_total:
  assumes "pk_type pickup \<noteq> 7"
  shows "list_all (\<lambda>ne. boidIndex ne < length (boids s)) nes \<Longrightarrow>
   \<exists>p' s'. pickupCandidates pickup nes s = Some (p', s') \<and> quadTree s' = quadTree s \<and>
     length (boids s) \<le> length (boids s')"
proof (induction nes)
  case Nil
  then show ?case by simp
next
  case (Cons ne nes)
  then have r: "boidIndex ne < length (boids s)"
    and ih: "\<exists>p' s'. pickupCandidates pickup nes s = Some (p', s') \<and> quadTree s' = quadTree s \<and>
     length (boids s) \<le> length (boids s')"
    by simp_all
  show ?case
  proof (cases "lengthSq (vsub (pos (boids s ! boidIndex ne)) (pk_pos pickup))
                  \<ge> PICKUP_COLLECT_RADIUS * PICKUP_COLLECT_RADIUS")
    case True
    with r ih show ?thesis by (simp add: Let_def)
  next
    case False
    show ?thesis
    proof (cases "players s (playerId (boids s ! boidIndex ne))")
      case None
      with r ih False show ?thesis by (simp add: Let_def)
    next
      case (Some player)
      with r False applyPickup_grows [OF assms, of "boids s ! boidIndex ne" player s]
      show ?thesis by (simp add: Let_def)
    qed
  qed
qed

lemma collectPickupsLoop_total:
  "list_all (\<lambda>p. pk_type p \<noteq> 7) ps \<Longrightarrow> index_in_range (quadTree s) (boids s) \<Longrightarrow>
   \<exists>ps' s'. collectPickupsLoop ps s = Some (ps', s') \<and> quadTree s' = quadTree s \<and>
     length (boids s) \<le> length (boids s')"
proof (induction ps arbitrary: s)
  case Nil
  then show ?case by simp
next
  case (Cons pickup rest)
  from Cons.prems(1) have ty: "pk_type pickup \<noteq> 7" and rest: "list_all (\<lambda>p. pk_type p \<noteq> 7) rest"
    by simp_all
  show ?case
  proof (cases "pk_active pickup")
    case False
    with Cons.IH [OF rest Cons.prems(2)] show ?thesis by auto
  next
    case True
    from pickupCandidates_total
      [OF ty query_in_range [OF Cons.prems(2), of "pickupQueryRect pickup"]]
    obtain p' s1 where
      a: "pickupCandidates pickup (qt_query (pickupQueryRect pickup) (quadTree s) []) s = Some (p', s1)"
      and q: "quadTree s1 = quadTree s" and l: "length (boids s) \<le> length (boids s1)"
      by blast
    from Cons.prems(2) q l have "index_in_range (quadTree s1) (boids s1)"
      by (auto intro: index_in_range_mono)
    from Cons.IH [OF rest this] obtain ps' s' where
      b: "collectPickupsLoop rest s1 = Some (ps', s')" and q': "quadTree s' = quadTree s1"
      and l': "length (boids s1) \<le> length (boids s')"
      by blast
    from True a b q q' l l' show ?thesis by simp
  qed
qed

lemma collectPickups_total:
  "list_all (\<lambda>p. pk_type p \<noteq> 7) (pickups s) \<Longrightarrow> index_in_range (quadTree s) (boids s) \<Longrightarrow>
   \<exists>s'. collectPickups s = Some s' \<and> index_in_range (quadTree s') (boids s')"
proof -
  assume t: "list_all (\<lambda>p. pk_type p \<noteq> 7) (pickups s)"
    and a: "index_in_range (quadTree s) (boids s)"
  from collectPickupsLoop_total [OF t a] obtain ps' s' where
    b: "collectPickupsLoop (pickups s) s = Some (ps', s')" and q: "quadTree s' = quadTree s"
    and l: "length (boids s) \<le> length (boids s')"
    by blast
  from a q l have "index_in_range (quadTree s') (boids s')"
    by (auto intro: index_in_range_mono)
  with b show ?thesis by (simp add: collectPickups_def)
qed

lemma spawnResources_pickups [simp]:
  "pickups (spawnResources s) = pickups s"
  "pickupSpawnAccum (spawnResources s) = pickupSpawnAccum s"
  by (simp_all add: spawnResources_def randomPosition_def Let_def split: prod.splits)

lemma spawnResourcesWhile_pickups [simp]:
  "pickups (spawnResourcesWhile s) = pickups s \<and>
   pickupSpawnAccum (spawnResourcesWhile s) = pickupSpawnAccum s"
proof (induction s rule: spawnResourcesWhile.induct)
  case (1 s)
  show ?case
  proof (cases "resourceSpawnAccum s \<ge> 1")
    case True
    with 1 show ?thesis by (subst (1 2) spawnResourcesWhile.simps) simp
  next
    case False
    then show ?thesis by (subst (1 2) spawnResourcesWhile.simps) simp
  qed
qed

lemma spawnPickups_idle:
  "pickupSpawnAccum s + 1 < PICKUP_SPAWN_INTERVAL \<Longrightarrow> pickups (spawnPickups s) = pickups s"
  by (simp add: spawnPickups_def Let_def)

text \<open>
  A tick in which no pickup is spawned and no MINE pickup lies on the map runs to
  completion: the index built after movement stays in range while boids are only added.
\<close>

lemma tick_total:
  assumes "list_all (\<lambda>p. pk_type p \<noteq> 7) (pickups s)"
    and "pickupSpawnAccum s + 1 < PICKUP_SPAWN_INTERVAL"
  shows "tick s \<noteq> None"
proof -
  let ?s0 = "forEachPlayer (\<lambda>pid. boostUpdate) s"
  let ?s1 = "tickPlayerEffects ?s0"
  let ?s2 = "spawnResourcesWhile
               (?s1\<lparr>resourceSpawnAccum := resourceSpawnAccum ?s1 + RESOURCE_SPAWN_RATE\<rparr>)"
  let ?s4 = "buildQuadTree (spawnPickups ?s2)"
  have p2: "pickups ?s2 = pickups s" "pickupSpawnAccum ?s2 = pickupSpawnAccum s"
    by (simp_all add: tickPlayerEffects_def forEachPlayer_def)
  have p4: "pickups ?s4 = pickups s"
    using spawnPickups_idle [of ?s2] assms(2) p2 by (simp add: buildQuadTree_def)
  have "index_in_range (quadTree ?s4) (boids ?s4)"
    using buildQuadTree_in_range [of "spawnPickups ?s2"] by simp
  from applyBoidRules_total [OF this] obtain s5 where
    a: "applyBoidRules ?s4 = Some s5" and p5: "pickups s5 = pickups ?s4" by blast
  let ?s7 = "buildQuadTree (clampPositions s5)"
  have p7: "pickups ?s7 = pickups s"
    using p5 p4 by (simp add: buildQuadTree_def clampPositions_def)
  have "index_in_range (quadTree ?s7) (boids ?s7)"
    using buildQuadTree_in_range [of "clampPositions s5"] by simp
  from collectResources_total [OF this] obtain s8 where
    b: "collectResources ?s7 = Some s8" and i8: "index_in_range (quadTree s8) (boids s8)"
    and p8: "pickups s8 = pickups ?s7" by blast
  from assms(1) p8 p7 have "list_all (\<lambda>p. pk_type p \<noteq> 7) (pickups s8)" by simp
  from collectPickups_total [OF this i8] obtain s9 where
    c: "collectPickups s8 = Some s9" and i9: "index_in_range (quadTree s9) (boids s9)" by blast
  from handleCombat_total [of s9] i9 obtain s10 where d: "handleCombat s9 = Some s10"
    by (auto simp: index_in_range_def)
  show ?thesis
    by (simp add: tick_def Let_def a b c d)
qed

lemma consumeResource_dom:
  "players s (playerId b) = Some pl \<Longrightarrow>
   dom (players (snd (consumeResource res b pl s))) = dom (players s)"
  by (auto simp: consumeResource_def Let_def)

lemma resourceCandidates_dom:
  "resourceCandidates res nes s = Some (res', s') \<Longrightarrow> dom (players s') = dom (players s)"
proof (induction nes)
  case Nil
  then show ?case by simp
next
  case (Cons ne nes)
  then show ?case
    using consumeResource_dom [of s "boids s ! boidIndex ne" _ res]
    by (auto simp: Let_def split: if_splits option.splits)
qed

lemma collectResourcesLoop_dom:
  "collectResourcesLoop rs s = Some (rs', s') \<Longrightarrow> dom (players s') = dom (players s)"
proof (induction rs arbitrary: s rs')
  case Nil
  then show ?case by simp
next
  case (Cons res rest)
  show ?case
  proof (cases "res_active res")
    case False
    with Cons.prems obtain rs1 where "collectResourcesLoop rest s = Some (rs1, s')"
      by (auto split: option.splits)
    with Cons.IH show ?thesis by blast
  next
    case True
    with Cons.prems obtain r1 s1 rs1 where
      a: "resourceCandidates res (qt_query (resourceQueryRect res) (quadTree s) []) s = Some (r1, s1)"
      and b: "collectResourcesLoop rest s1 = Some (rs1, s')"
      by (auto split: option.splits)
    from resourceCandidates_dom [OF a] Cons.IH [OF b] show ?thesis by simp
  qed
qed

lemma collectResources_dom:
  assumes "collectResources s = Some s'"
  shows "dom (players s') = dom (players s)"
proof -
  from assms obtain rs s1 where a: "collectResourcesLoop (resources s) s = Some (rs, s1)"
    and b: "s' = s1\<lparr>resources := filter res_active rs\<rparr>"
    by (auto simp: collectResources_def split: option.splits)
  from collectResourcesLoop_dom [OF a] b show ?thesis by simp
qed

lemma applyPickup_dom:
  "players s (playerId b) = Some player \<Longrightarrow>
   dom (players (applyPickup pickup b player s)) = dom (players s)"
  by (auto simp: applyPickup_def Let_def)

lemma pickupCandidates_dom:
  "pickupCandidates pickup nes s = Some (pickup', s') \<Longrightarrow> dom (players s') = dom (players s)"
proof (induction nes)
  case Nil
  then show ?case by simp
next
  case (Cons ne nes)
  then show ?case
    using applyPickup_dom [of s "boids s ! boidIndex ne" _ pickup]
    by (auto simp: Let_def split: if_splits option.splits)
qed

lemma collectPickupsLoop_dom:
  "collectPickupsLoop ps s = Some (ps', s') \<Longrightarrow> dom (players s') = dom (players s)"
proof (induction ps arbitrary: s ps')
  case Nil
  then show ?case by simp
next
  case (Cons pickup rest)
  show ?case
  proof (cases "pk_active pickup")
    case False
    with Cons.prems obtain ps1 where "collectPickupsLoop rest s = Some (ps1, s')"
      by (auto split: option.splits)
    with Cons.IH show ?thesis by blast
  next
    case True
    with Cons.prems obtain p1 s1 ps1 where
      a: "pickupCandidates pickup (qt_query (pickupQueryRect pickup) (quadTree s) []) s = Some (p1, s1)"
      and b: "collectPickupsLoop rest s1 = Some (ps1, s')"
      by (auto split: option.splits)
    from pickupCandidates_dom [OF a] Cons.IH [OF b] show ?thesis by simp
  qed
qed

lemma collectPickups_dom:
  assumes "collectPickups s = Some s'"
  shows "dom (players s') = dom (players s)"
proof -
  from assms obtain ps s1 where a: "collectPickupsLoop (pickups s) s = Some (ps, s1)"
    and b: "s' = s1\<lparr>pickups := filter pk_active ps\<rparr>"
    by (auto simp: collectPickups_def split: option.splits)
  from collectPickupsLoop_dom [OF a] b show ?thesis by simp
qed

lemma forEachPlayer_dom [simp]: "dom (players (forEachPlayer f s)) = dom (players s)"
  by (auto simp: forEachPlayer_def dom_def)

text \<open>A tick neither adds nor removes a player record.\<close>

lemma tick_dom:
  assumes "tick s = Some s'"
  shows "dom (players s') = dom (players s)"
proof -
  let ?s0 = "forEachPlayer (\<lambda>pid. boostUpdate) s"
  let ?s1 = "tickPlayerEffects ?s0"
  let ?s4 = "buildQuadTree (spawnPickups (spawnResourcesWhile
               (?s1\<lparr>resourceSpawnAccum := resourceSpawnAccum ?s1 + RESOURCE_SPAWN_RATE\<rparr>)))"
  from assms obtain s5 s8 s9 s10 where
    a: "applyBoidRules ?s4 = Some s5"
    and b: "collectResources (buildQuadTree (clampPositions s5)) = Some s8"
    and c: "collectPickups s8 = Some s9"
    and d: "handleCombat s9 = Some s10"
    and e: "s' = forEachPlayer (checkAlive (boids s10)) s10"
    by (auto simp: tick_def Let_def split: option.splits)
  have "dom (players ?s4) = dom (players s)"
    by (simp add: tickPlayerEffects_def)
  moreover have "players s5 = players ?s4"
    using a by (auto simp: applyBoidRules_def split: option.splits)
  moreover have "dom (players s8) = dom (players s5)"
    using collectResources_dom [OF b] by (simp add: clampPositions_def)
  moreover have "dom (players s9) = dom (players s8)" using c by (rule collectPickups_dom)
  moreover have "players s10 = players s9" using handleCombat_shielded [OF d] by simp
  ultimately show ?thesis unfolding e by simp
qed

lemma spawnResources_nextPlayerId [simp]:
  "nextPlayerId (spawnResources s) = nextPlayerId s"
  by (simp add: spawnResources_def randomPosition_def Let_def split: prod.splits)

lemma prespawn_more [simp]:
  "nextPlayerId (prespawn n s) = nextPlayerId s \<and> pickups (prespawn n s) = pickups s \<and>
   pickupSpawnAccum (prespawn n s) = pickupSpawnAccum s"
  by (induction n arbitrary: s) simp_all

lemma newEngine_fresh:
  "nextPlayerId (newEngine seed) = 1 \<and> pickups (newEngine seed) = [] \<and>
   pickupSpawnAccum (newEngine seed) = 0"
  by (simp add: newEngine_def)

lemma spawnBoidsLoop_pickups [simp]:
  "pickups (spawnBoidsLoop pid c n s) = pickups s \<and>
   pickupSpawnAccum (spawnBoidsLoop pid c n s) = pickupSpawnAccum s \<and>
   players (spawnBoidsLoop pid c n s) = players s"
  by (induction n arbitrary: s) (simp_all split: prod.splits)

lemma addPlayer_pickups [simp]:
  "pickups (snd (addPlayer s)) = pickups s \<and>
   pickupSpawnAccum (snd (addPlayer s)) = pickupSpawnAccum s"
  by (simp add: addPlayer_def Let_def spawnBoidsForPlayer_def case_prod_beta
        randomPosition_def)

text \<open>
  On a fresh engine, a player joins and asks for boost, and one tick runs to completion
  with that player still present.
\<close>

lemma run_add_boost_tick:
  "\<exists>s p. run [AddPlayer, SetPlayerBoost 1 True, Tick] (newEngine seed) = Some s \<and>
     players s 1 = Some p \<and> dom (players s) = {1}"
proof -
  let ?s1 = "snd (addPlayer (newEngine seed))"
  let ?s2 = "setPlayerBoost 1 True ?s1"
  have p1: "players ?s1 = [1 \<mapsto> newPlayer 1]"
    by (simp add: addPlayer_players newEngine_fresh newEngine_empty)
  have s2: "?s2 = ?s1\<lparr>players := [1 \<mapsto> (newPlayer 1)\<lparr>boosting := True\<rparr>]\<rparr>"
    by (simp add: setPlayerBoost_def p1)
  have "pickups ?s2 = []" "pickupSpawnAccum ?s2 = 0"
    unfolding s2 by (simp_all add: newEngine_fresh)
  then have "tick ?s2 \<noteq> None"
    by (intro tick_total) (simp_all add: PICKUP_SPAWN_INTERVAL_def)
  then obtain s where t: "tick ?s2 = Some s" by blast
  from tick_dom [OF t] have d: "dom (players s) = {1}" unfolding s2 by simp
  then obtain p where "players s 1 = Some p" by blast
  with t d show ?thesis by auto
qed

section \<open>Properties of reachable states\<close>

text \<open>
  Claim C6. In every state reached from a freshly constructed engine by any sequence of
  public calls (\<open>addPlayer\<close>, \<open>removePlayer\<close>, \<open>setPlayerCursor\<close>, \<open>setPlayerBoost\<close> with
  any arguments) and ticks, pickup effects included, the boost fuel of every player
  lies within the interval from 0 to 1.
\<close>

theorem boost_fuel_in_unit_interval:
  assumes "run calls (newEngine seed) = Some s" "players s pid = Some p"
  shows "0 \<le> boostFuel p \<and> boostFuel p \<le> 1"
  using reachable_inv [OF assms(1)] assms(2) by (simp add: eng_inv_def inv2_def)

theorem boost_fuel_in_unit_interval_witness:
  "\<exists>s p. run [AddPlayer, SetPlayerBoost 1 True, Tick] (newEngine (\<lambda>n. 0)) = Some s \<and>
     players s 1 = Some p \<and> 0 \<le> boostFuel p \<and> boostFuel p \<le> 1"
proof -
  obtain s p where r: "run [AddPlayer, SetPlayerBoost 1 True, Tick] (newEngine (\<lambda>n. 0)) = Some s"
    and p: "players s 1 = Some p"
    using run_add_boost_tick by blast
  from boost_fuel_in_unit_interval [OF r p] r p show ?thesis by blast
qed

text \<open>
  Claim C10. In every state reached from a freshly constructed engine by public calls
  and ticks, the \<open>playerId\<close> of every stored boid is a key of the player collection.
\<close>

theorem boid_owner_exists:
  assumes "run calls (newEngine seed) = Some s" "b \<in> set (boids s)"
  shows "playerId b \<in> dom (players s)"
  using reachable_inv [OF assms(1)] assms(2) by (auto simp: eng_inv_def inv2_def)

theorem boid_owner_exists_witness:
  "\<exists>s b. run [AddPlayer, SetPlayerBoost 1 True, Tick, AddPlayer] (newEngine (\<lambda>n. 0)) = Some s \<and>
     b \<in> set (boids s) \<and> playerId b \<in> dom (players s)"
proof -
  obtain s1 where "run [AddPlayer, SetPlayerBoost 1 True, Tick] (newEngine (\<lambda>n. 0)) = Some s1"
    using run_add_boost_tick by blast
  then have r: "run [AddPlayer, SetPlayerBoost 1 True, Tick, AddPlayer] (newEngine (\<lambda>n. 0))
                  = Some (snd (addPlayer s1))"
    by (auto split: option.splits)
  have "boids (snd (addPlayer s1)) \<noteq> []" by (rule addPlayer_boids_nonempty)
  then obtain b where b: "b \<in> set (boids (snd (addPlayer s1)))"
    by (cases "boids (snd (addPlayer s1))") auto
  from boid_owner_exists [OF r b] r b show ?thesis by blast
qed

text \<open>
  Claim C9. In every reachable state, for an id that is not a key of the player
  collection, \<open>removePlayer\<close>, \<open>setPlayerCursor\<close> and \<open>setPlayerBoost\<close> return the engine
  state unchanged: players, boids, resources, pickups, index, counters, accumulators
  and generator.
\<close>

theorem unknown_id_noop:
  assumes "run calls (newEngine seed) = Some s" "players s pid = None"
  shows "removePlayer pid s = s \<and> setPlayerCursor pid cx cy s = s \<and>
         setPlayerBoost pid active s = s"
proof -
  from reachable_inv [OF assms(1)]
  have "playerId ` set (boids s) \<subseteq> dom (players s)" by (simp add: eng_inv_def inv2_def)
  with assms(2) have "\<forall>b \<in> set (boids s). playerId b \<noteq> pid" by auto
  then have "filter (\<lambda>b. \<not> (playerId b = pid)) (boids s) = boids s" by simp
  moreover have "(players s)(pid := None) = players s" using assms(2) by auto
  ultimately show ?thesis
    using assms(2) by (simp add: removePlayer_def setPlayerCursor_def setPlayerBoost_def)
qed

theorem unknown_id_noop_witness:
  "\<exists>s. run [AddPlayer, SetPlayerBoost 1 True, Tick] (newEngine (\<lambda>n. 0)) = Some s \<and>
     players s 2 = None \<and>
     removePlayer 2 s = s \<and> setPlayerCursor 2 7 9 s = s \<and> setPlayerBoost 2 True s = s"
proof -
  obtain s where r: "run [AddPlayer, SetPlayerBoost 1 True, Tick] (newEngine (\<lambda>n. 0)) = Some s"
    and d: "dom (players s) = {1}"
    using run_add_boost_tick by blast
  from d have "(2 :: 32 word) \<notin> dom (players s)" by simp
  then have p: "players s 2 = None" by (simp add: domIff)
  from unknown_id_noop [OF r p, of 7 9 True] r p show ?thesis by blast
qed

section \<open>The snapshot codec writes the documented layout\<close>







































section \<open>Two places where the code leaves the specification\<close>

lemmas eval_defs =
  emptyEngine_def buildQuadTree_def boidEntry_def qt_clear_def
  contains_def intersects_def lengthSq_def vsub_def
  MAP_WIDTH_def MAP_HEIGHT_def QUADTREE_MAX_OBJECTS_def QUADTREE_MAX_LEVELS_def
  PICKUP_COLLECT_RADIUS_def COMBAT_ABSORB_RADIUS_def BOID_BASE_COLLECT_RANGE_def
  MINE_KILL_COUNT_def MAX_BOIDS_PER_PLAYER_def
  pickupQueryRect_def combatQueryRect_def resourceQueryRect_def
  collectPickups_def collectResources_def handleCombat_def
  applyPickup_def newPlayer_def erase_at_def Let_def upt_rec

lemma c1_tree:
  "quadTree (buildQuadTree c1_state) =
     Leaf (Rect 0 0 4000 4000) 0
       [QTEntry 0 1000 1000, QTEntry 1 1010 1000, QTEntry 2 1010 1001,
        QTEntry 3 1010 1002, QTEntry 4 1010 1003]"
  by (simp add: c1_state_def eval_defs)

lemma stale_index_second_pickup:
  "(case collectResources (buildQuadTree c1_state) of
      None \<Rightarrow> None
    | Some s8 \<Rightarrow> collectPickups s8) = None"
proof -
  have r: "collectResources (buildQuadTree c1_state) = Some (buildQuadTree c1_state)"
    by (simp add: c1_state_def eval_defs)
  have p: "collectPickups (buildQuadTree c1_state) = None"
    by (simp add: c1_state_def eval_defs)
  show ?thesis by (simp add: r p)
qed

lemma stale_index_in_combat:
  "\<exists>s9. collectPickups (buildQuadTree (c1_state\<lparr>pickups := [hd (pickups c1_state)]\<rparr>)) = Some s9 \<and>
        length (boids s9) = 1 \<and> handleCombat s9 = None"
proof -
  let ?s9 = "(buildQuadTree c1_state)
               \<lparr>boids := [\<lparr>boid_id = 1, playerId = 1, pos = Vec2 1000 1000, vel = Vec2 0 0\<rparr>],
                pickups := []\<rparr>"
  have p: "collectPickups (buildQuadTree (c1_state\<lparr>pickups := [hd (pickups c1_state)]\<rparr>)) = Some ?s9"
    by (simp add: c1_state_def eval_defs)
  have h: "handleCombat ?s9 = None"
    by (simp add: c1_state_def eval_defs)
  from p h show ?thesis by simp
qed



text \<open>
  Claim C1 says that every index returned by a query of the spatial index is a valid
  index of the current boid collection, also after a MINE pickup removed boids earlier
  in the same tick. The code does not rebuild the index after that removal. With five
  boids of one player, a MINE pickup on the first boid and a second pickup next to the
  other four, the first pickup removes the last four boids and the second pickup's
  query returns the stale entry with index 1 for a collection of length 1: the read
  \<open>boids_[1]\<close> is out of range. With the MINE pickup alone the same happens in the
  combat phase.
\<close>

theorem stale_index_after_mine:
  "(case collectResources (buildQuadTree c1_state) of
      None \<Rightarrow> None
    | Some s8 \<Rightarrow> collectPickups s8) = None \<and>
   (\<exists>s9. collectPickups (buildQuadTree (c1_state\<lparr>pickups := [hd (pickups c1_state)]\<rparr>)) = Some s9 \<and>
        length (boids s9) = 1 \<and> handleCombat s9 = None)"
  using stale_index_second_pickup stale_index_in_combat by blast

lemma applyMutation_collectRange:
  "applyMutation 3 bst m = m\<lparr>collectRange := collectRange m + bst\<rparr>"
  by (simp add: applyMutation_def)

lemma applyMutation_collectRange_funpow:
  "((applyMutation 3 bst) ^^ n) m = m\<lparr>collectRange := collectRange m + real n * bst\<rparr>"
  by (induction n) (simp_all add: applyMutation_collectRange algebra_simps)

lemma c4_player_eval:
  "c4_player =
     (newPlayer 1)\<lparr>score := 126,
       mutations := \<lparr>speed = 1, cohesion = 1, aggression = 1, collectRange = 88 / 25\<rparr>\<rparr>"
  by (simp add: c4_player_def applyMutation_collectRange_funpow newPlayer_def)

text \<open>
  Claim C4 says that the fixed query radius of the resource phase (three times the base
  collect range, commented \<open>max possible\<close>) covers the collect range of every attainable
  player. The multiplier grows by 0.02 times the value of each collected resource of
  type 3 and has no cap: after 42 such resources of value 3 it is 3.52. A boid of that
  player 130 units from a resource is within its exact collect range of 140.8 but
  outside the query rectangle, so the resource is not collected.
\<close>

theorem collect_range_outgrows_query:
  "collectRange (mutations c4_player) = 88 / 25 \<and>
   lengthSq (vsub (pos (boids c4_state ! 0)) (res_pos (resources c4_state ! 0)))
     < (BOID_BASE_COLLECT_RANGE * collectRange (mutations c4_player)) *
       (BOID_BASE_COLLECT_RANGE * collectRange (mutations c4_player)) \<and>
   qt_query (resourceQueryRect (resources c4_state ! 0)) (quadTree (buildQuadTree c4_state)) [] = [] \<and>
   collectResources (buildQuadTree c4_state) = Some (buildQuadTree c4_state)"
proof -
  have a: "collectRange (mutations c4_player) = 88 / 25" by (simp add: c4_player_eval)
  have b: "lengthSq (vsub (pos (boids c4_state ! 0)) (res_pos (resources c4_state ! 0)))
     < (BOID_BASE_COLLECT_RANGE * collectRange (mutations c4_player)) *
       (BOID_BASE_COLLECT_RANGE * collectRange (mutations c4_player))"
    by (simp add: a c4_state_def eval_defs)
  have c: "qt_query (resourceQueryRect (resources c4_state ! 0)) (quadTree (buildQuadTree c4_state)) [] = []"
    by (simp add: c4_state_def eval_defs)
  have d: "collectResources (buildQuadTree c4_state) = Some (buildQuadTree c4_state)"
    by (simp add: c4_state_def eval_defs)
  from a b c d show ?thesis by simp
qed

end
